theory Spec2Isabelle
  imports Complex_Main
begin

section \<open>Retrieval: documents, scores and Python containers\<close>

text \<open>
  A LangChain \<open>Document\<close> carries \<open>page_content\<close> and a \<open>metadata\<close> dict of scalar values.
  Characters are code points below 256; scores are Python floats, modelled as reals
  (comparisons and sorting agree; rounding is not modelled).
\<close>

datatype scalar = SNone | SStr string | SInt int

record document =
  page_content :: string
  metadata :: "(string \<times> scalar) list"

type_synonym scored = "document \<times> real"

text \<open>\<open>doc.metadata.get(k)\<close>: the value stored under the key, Python's \<open>None\<close> when absent.\<close>

definition metadata_get :: "document \<Rightarrow> string \<Rightarrow> scalar" where
  "metadata_get doc k = (case map_of (metadata doc) k of None \<Rightarrow> SNone | Some v \<Rightarrow> v)"

text \<open>\<open>doc.page_content[:100]\<close>, the deduplication key of both fusion and selection.\<close>

definition fingerprint :: "document \<Rightarrow> string" where
  "fingerprint doc = take 100 (page_content doc)"

text \<open>
  A Python dict keeps insertion order; assigning to a key that is present replaces its value
  and leaves its position. It is an association list with each key listed once.
\<close>

fun dict_set :: "'k \<Rightarrow> 'v \<Rightarrow> ('k \<times> 'v) list \<Rightarrow> ('k \<times> 'v) list" where
  "dict_set k v [] = [(k, v)]"
| "dict_set k v ((k', v') # d) =
     (if k = k' then (k, v) # d else (k', v') # dict_set k v d)"

text \<open>The slice \<open>xs[:k]\<close> for a Python int \<open>k\<close>: a negative \<open>k\<close> counts from the end.\<close>

definition py_slice_to :: "int \<Rightarrow> 'a list \<Rightarrow> 'a list" where
  "py_slice_to k xs =
     (if 0 \<le> k then take (nat k) xs else take (nat (int (length xs) + k)) xs)"

text \<open>
  \<open>result.sort(key=lambda x: x[1], reverse=True)\<close>: Python's sort is stable, also with
  \<open>reverse=True\<close>, so entries of equal score keep their order. Insertion sort on the negated
  score is the same function.
\<close>

definition sort_desc :: "scored list \<Rightarrow> scored list" where
  "sort_desc xs = sort_key (\<lambda>x. - snd x) xs"

abbreviation descending :: "real list \<Rightarrow> bool" where
  "descending ss \<equiv> sorted_wrt (\<lambda>a b. b \<le> a) ss"

section \<open>AdvancedRetriever\<close>

subsection \<open>\<open>_combine_results\<close>\<close>

text \<open>The nested \<open>normalize\<close>: min-max scaling, with range 1 when all scores are equal.\<close>

definition normalize :: "scored list \<Rightarrow> scored list" where
  "normalize results =
     (if results = [] then []
      else let scores = map snd results;
               max_score = (if scores \<noteq> [] then fold max (tl scores) (hd scores) else 1);
               min_score = (if scores \<noteq> [] then fold min (tl scores) (hd scores) else 0);
               score_range = (if max_score \<noteq> min_score then max_score - min_score else 1)
           in map (\<lambda>(doc, s). (doc, (s - min_score) / score_range)) results)"

text \<open>First loop: every vector result is stored under its fingerprint, a later one replacing
  an earlier one of the same fingerprint.\<close>

definition add_vector :: "real \<Rightarrow> scored \<Rightarrow> (string \<times> scored) list \<Rightarrow> (string \<times> scored) list" where
  "add_vector vector_weight r combined_dict =
     (case r of (doc, score) \<Rightarrow>
        dict_set (fingerprint doc) (doc, score * vector_weight) combined_dict)"

text \<open>Second loop: a keyword result adds its weighted score to the entry of its fingerprint
  (whose document stays), or makes a new entry.\<close>

definition add_keyword :: "real \<Rightarrow> scored \<Rightarrow> (string \<times> scored) list \<Rightarrow> (string \<times> scored) list" where
  "add_keyword keyword_weight r combined_dict =
     (case r of (doc, score) \<Rightarrow>
        (case map_of combined_dict (fingerprint doc) of
           Some (doc0, score0) \<Rightarrow>
             dict_set (fingerprint doc) (doc0, score0 + score * keyword_weight) combined_dict
         | None \<Rightarrow>
             dict_set (fingerprint doc) (doc, score * keyword_weight) combined_dict))"

text \<open>\<open>all(doc.metadata.get(k) == v for k, v in filter_metadata.items())\<close>\<close>

definition matches_filter :: "(string \<times> scalar) list \<Rightarrow> document \<Rightarrow> bool" where
  "matches_filter filter_metadata doc =
     list_all (\<lambda>(k, v). metadata_get doc k = v) filter_metadata"

text \<open>\<open>if filter_metadata:\<close> is false for \<open>None\<close> and for the empty dict.\<close>

definition apply_filter ::
  "(string \<times> scalar) list option \<Rightarrow> (string \<times> scored) list \<Rightarrow> (string \<times> scored) list" where
  "apply_filter filter_metadata combined_dict =
     (case filter_metadata of
        None \<Rightarrow> combined_dict
      | Some f \<Rightarrow>
          (if f = [] then combined_dict
           else filter (\<lambda>(doc_id, data). matches_filter f (fst data)) combined_dict))"

definition combine_results ::
  "scored list \<Rightarrow> scored list \<Rightarrow> real \<Rightarrow> (string \<times> scalar) list option \<Rightarrow> scored list" where
  "combine_results vector_results keyword_results vector_weight filter_metadata =
     (let vector_norm = normalize vector_results;
          keyword_norm = normalize keyword_results;
          keyword_weight = 1 - vector_weight;
          combined_dict = fold (add_vector vector_weight) vector_norm [];
          combined_dict = fold (add_keyword keyword_weight) keyword_norm combined_dict;
          combined_dict = apply_filter filter_metadata combined_dict
      in sort_desc (map snd combined_dict))"

subsection \<open>\<open>VectorStoreManager.similarity_search_with_score\<close> and \<open>hybrid_search\<close>\<close>

datatype error = ValueError | TypeError | KeyError

text \<open>
  The Chroma index is a collaborator: the number of stored chunks, which is its \<open>len\<close>, and a
  search returning documents with distances. \<open>self.vectorstore\<close> is \<open>None\<close> until the store is
  created or loaded. The guard \<open>if not self.vectorstore\<close> is a truth test, so the search raises
  \<open>ValueError\<close> for \<open>None\<close> and also for a loaded store that holds no chunk.
  \<open>_bm25_search\<close> (BM25Okapi and numpy's argsort) is a collaborator too.
\<close>

record chroma =
  collection_count :: nat
  search_with_score :: "string \<Rightarrow> int \<Rightarrow> (document \<times> real) list"

definition similarity_search_with_score ::
  "chroma option \<Rightarrow> string \<Rightarrow> int \<Rightarrow> error + scored list" where
  "similarity_search_with_score vectorstore query k =
     (case vectorstore of
        None \<Rightarrow> Inl ValueError
      | Some store \<Rightarrow>
          if collection_count store = 0 then Inl ValueError
          else Inr (map (\<lambda>(doc, distance). (doc, 1 / (1 + \<bar>distance\<bar>)))
                      (search_with_score store query k)))"

definition hybrid_search ::
  "chroma option \<Rightarrow> (string \<Rightarrow> int \<Rightarrow> scored list) \<Rightarrow> string \<Rightarrow> int \<Rightarrow> real
     \<Rightarrow> (string \<times> scalar) list option \<Rightarrow> error + scored list" where
  "hybrid_search vectorstore bm25_search query k vector_weight filter_metadata =
     (case similarity_search_with_score vectorstore query (k * 2) of
        Inl e \<Rightarrow> Inl e
      | Inr vector_results \<Rightarrow>
          (let keyword_results = bm25_search query (k * 2);
               combined = combine_results vector_results keyword_results vector_weight
                            filter_metadata
           in Inr (py_slice_to k combined)))"

subsection \<open>\<open>rerank_results\<close>\<close>

text \<open>The fallback \<open>[(doc, 1.0 - (i * 0.1)) for i, doc in enumerate(documents[:top_k])]\<close>.\<close>

definition rerank_fallback :: "document list \<Rightarrow> int \<Rightarrow> scored list" where
  "rerank_fallback documents top_k =
     map (\<lambda>(i, doc). (doc, 1 - real i * (1/10))) (enumerate 0 (py_slice_to top_k documents))"

text \<open>
  The cross-encoder is a collaborator: \<open>predict\<close> gives one score per (query, content) pair,
  and \<open>None\<close> stands for any exception of the import, the model or the prediction, which the
  \<open>except\<close> clause turns into the fallback.
\<close>

definition rerank_results ::
  "bool \<Rightarrow> (string \<Rightarrow> string list \<Rightarrow> real list option) \<Rightarrow> string \<Rightarrow> document list \<Rightarrow> int
     \<Rightarrow> scored list" where
  "rerank_results reranker_available predict query documents top_k =
     (if \<not> reranker_available then rerank_fallback documents top_k
      else (case predict query (map page_content documents) of
              None \<Rightarrow> rerank_fallback documents top_k
            | Some scores \<Rightarrow>
                (let doc_score_pairs = zip documents scores;
                     doc_score_pairs = sort_desc doc_score_pairs
                 in py_slice_to top_k doc_score_pairs)))"

subsection \<open>\<open>query_expansion\<close>\<close>

text \<open>\<open>str.isspace\<close> on the code points below 256, and \<open>str.strip()\<close>.\<close>

definition is_space :: "char \<Rightarrow> bool" where
  "is_space c = (of_char c \<in> {9, 10, 11, 12, 13, 28, 29, 30, 31, 32, 133, 160 :: nat})"

definition strip :: "string \<Rightarrow> string" where
  "strip s = rev (dropWhile is_space (rev (dropWhile is_space s)))"

text \<open>\<open>s.split(sep)\<close> for a one-character separator: always at least one piece.\<close>

fun split_on :: "char \<Rightarrow> string \<Rightarrow> string list" where
  "split_on sep [] = [[]]"
| "split_on sep (c # cs) =
     (if c = sep then [] # split_on sep cs
      else (case split_on sep cs of
              [] \<Rightarrow> [[c]]
            | piece # pieces \<Rightarrow> (c # piece) # pieces))"

definition startswith :: "string \<Rightarrow> string \<Rightarrow> bool" where
  "startswith s prefix = (take (length prefix) s = prefix)"

definition newline :: char where
  "newline = CHR 0x0A"

text \<open>The five prefixes (twice the word for variation with its number, \<open>'1.'\<close>, \<open>'2.'\<close>,
  \<open>'-'\<close>), tried in this order, each
  on what the earlier ones left.\<close>

definition variacao :: string where
  "variacao = ''Varia'' @ [CHR 0xE7, CHR 0xE3] @ ''o''"

definition prefixes :: "string list" where
  "prefixes = [variacao @ '' 1:'', variacao @ '' 2:'', ''1.'', ''2.'', ''-'']"

definition strip_prefix :: "string \<Rightarrow> string \<Rightarrow> string" where
  "strip_prefix prefix clean =
     (if startswith clean prefix then strip (drop (length prefix) clean) else clean)"

definition clean_line :: "string \<Rightarrow> string" where
  "clean_line line = fold strip_prefix prefixes (strip line)"

definition add_variation :: "string \<Rightarrow> string list \<Rightarrow> string list" where
  "add_variation line variations =
     (let clean = clean_line line
      in if clean \<noteq> [] \<and> length clean > 10 \<and> clean \<notin> set variations
         then variations @ [clean] else variations)"

definition expansion_prompt :: "string \<Rightarrow> string" where
  "expansion_prompt query =
     ''Gere 2 varia'' @ [CHR 0xE7, CHR 0xF5] @ ''es diferentes da seguinte pergunta:''
       @ [newline, newline] @ ''Pergunta: '' @ query @ [newline, newline] @ variacao @ '' 1:''"

text \<open>
  \<open>llm.generate\<close> is a collaborator: the reply to a prompt, \<open>None\<close> when it raises. Every
  exception inside the \<open>try\<close> gives \<open>[query]\<close>.
\<close>

definition query_expansion :: "(string \<Rightarrow> string option) \<Rightarrow> string \<Rightarrow> string list" where
  "query_expansion generate query =
     (case generate (expansion_prompt query) of
        None \<Rightarrow> [query]
      | Some response \<Rightarrow>
          (let variations = [query];
               lines = split_on newline (strip response);
               variations = fold add_variation lines variations
           in take 3 variations))"

section \<open>Stream events\<close>

text \<open>
  Values decoded by \<open>json.loads\<close>, with Python's truth test. A planning decision may hold any
  of them under any key.
\<close>

datatype json =
    JNull | JBool bool | JInt int | JFloat real | JStr string
  | JArr "json list" | JObj "(string \<times> json) list"

fun truthy :: "json \<Rightarrow> bool" where
  "truthy JNull = False"
| "truthy (JBool b) = b"
| "truthy (JInt i) = (i \<noteq> 0)"
| "truthy (JFloat r) = (r \<noteq> 0)"
| "truthy (JStr s) = (s \<noteq> [])"
| "truthy (JArr xs) = (xs \<noteq> [])"
| "truthy (JObj kvs) = (kvs \<noteq> [])"

record source =
  source_content :: string
  source_metadata :: "(string \<times> scalar) list"
  source_score :: real

text \<open>
  The events are dicts \<open>{'type': ..., 'data': ...}\<close>. A status is a fixed message (written
  here without its leading pictogram) or the step line \<open>Passo {iteration + 1}: {tool_name}\<close>;
  a tool result event is \<open>OK\<close> or \<open>Erro\<close>; a reasoning event carries the plan's value.
\<close>

datatype status_data = Message string | Step nat json

datatype metadata_data =
    Rag_metadata real string
  | Agent_metadata bool "string list" nat

datatype event =
    Status status_data
  | Chunk string
  | Metadata metadata_data
  | Sources "source list"
  | Reasoning json
  | Tool_result bool

section \<open>CacheManager\<close>

text \<open>
  \<open>hashlib.sha256(content.encode()).hexdigest()\<close>: the digest is a free constructor over the
  hashed content, so equal contents have equal digests and, SHA-256 being collision
  resistant, distinct contents are taken to have distinct digests.
\<close>

datatype digest = Sha256 string

definition hash_content :: "string \<Rightarrow> digest" where
  "hash_content content = Sha256 content"

text \<open>\<open>str.lower()\<close> on the code points below 256: A-Z and the accented capitals.\<close>

definition lower_char :: "char \<Rightarrow> char" where
  "lower_char c =
     (let n = (of_char c :: nat)
      in if (65 \<le> n \<and> n \<le> 90) \<or> (192 \<le> n \<and> n \<le> 222 \<and> n \<noteq> 215)
         then char_of (n + 32) else c)"

definition lower :: "string \<Rightarrow> string" where
  "lower s = map lower_char s"

text \<open>The cached response dict; \<open>method_label\<close> is its key \<open>'method'\<close>.\<close>

record response =
  answer :: string
  confidence :: real
  method_label :: string
  sources :: "source list"

record cache_data =
  response :: response
  timestamp :: real
  tokens :: int

text \<open>
  Two clocks, both in seconds: \<open>epoch\<close> is \<open>time.time()\<close>, which diskcache reads, and \<open>wall\<close>
  is the naive local \<open>datetime.now()\<close>, which the timestamps of the entries hold. They advance
  together except when the local UTC offset changes (daylight saving time, a new time zone).
\<close>

record clock =
  epoch :: real
  wall :: real

text \<open>
  A \<open>diskcache.Cache\<close> maps a key to a value with an expiry time: \<open>set(key, value, expire)\<close>
  stores the value to expire \<open>expire\<close> seconds from now, and \<open>get(key)\<close> returns it while the
  expiry time is still ahead.
\<close>

definition disk_get :: "('k \<rightharpoonup> ('v \<times> real)) \<Rightarrow> real \<Rightarrow> 'k \<Rightarrow> 'v option" where
  "disk_get store now key =
     (case store key of
        None \<Rightarrow> None
      | Some (v, expire_time) \<Rightarrow> if expire_time > now then Some v else None)"

definition disk_set ::
  "('k \<rightharpoonup> ('v \<times> real)) \<Rightarrow> real \<Rightarrow> 'k \<Rightarrow> 'v \<Rightarrow> real \<Rightarrow> ('k \<rightharpoonup> ('v \<times> real))" where
  "disk_set store now key v expire = store(key \<mapsto> (v, now + expire))"

text \<open>The response store and the counters of the statistics store that the response path
  touches.\<close>

record cache_manager =
  response_cache :: "digest \<rightharpoonup> (cache_data \<times> real)"
  response_hits :: int
  response_misses :: int
  total_tokens_saved :: int
  estimated_cost_saved :: real

definition question_key :: "string \<Rightarrow> digest" where
  "question_key question = hash_content (strip (lower question))"

definition get_response_cache ::
  "clock \<Rightarrow> string \<Rightarrow> cache_manager \<Rightarrow> response option \<times> cache_manager" where
  "get_response_cache now question cm =
     (let question_hash = question_key question;
          cached = disk_get (response_cache cm) (epoch now) question_hash;
          miss = (None, cm\<lparr>response_misses := response_misses cm + 1\<rparr>)
      in case cached of
           None \<Rightarrow> miss
         | Some c \<Rightarrow>
             if wall now - timestamp c < 24 * 3600
             then (Some (response c),
                   cm\<lparr>response_hits := response_hits cm + 1,
                      estimated_cost_saved := estimated_cost_saved cm + 1/100,
                      total_tokens_saved := total_tokens_saved cm + tokens c\<rparr>)
             else miss)"

definition set_response_cache ::
  "clock \<Rightarrow> string \<Rightarrow> response \<Rightarrow> int \<Rightarrow> cache_manager \<Rightarrow> cache_manager" where
  "set_response_cache now question resp tokens_used cm =
     (let question_hash = question_key question;
          data = \<lparr>response = resp, timestamp = wall now, tokens = tokens_used\<rparr>
      in cm\<lparr>response_cache :=
              disk_set (response_cache cm) (epoch now) question_hash data 86400\<rparr>)"

section \<open>StreamingRAGSystem\<close>

text \<open>
  The system with its collaborators: the index, the keyword search, the cross-encoder, and the
  generation backend, whose \<open>generate\<close> may raise (\<open>None\<close>) and whose \<open>generate_stream\<close>
  yields a finite list of fragments.
\<close>

record rag_system =
  vectorstore :: "chroma option"
  bm25_search :: "string \<Rightarrow> int \<Rightarrow> scored list"
  reranker_available :: bool
  predict :: "string \<Rightarrow> string list \<Rightarrow> real list option"
  k_documents :: int
  enable_cache :: bool
  cache :: "cache_manager option"
  llm_generate :: "string \<Rightarrow> string option"
  llm_generate_stream :: "string \<Rightarrow> string list"

subsection \<open>\<open>RAGSystem._create_prompt\<close>\<close>

fun str_nat :: "nat \<Rightarrow> string" where
  "str_nat n =
     (if n < 10 then [char_of (48 + n)]
      else str_nat (n div 10) @ [char_of (48 + n mod 10)])"

fun join :: "string \<Rightarrow> string list \<Rightarrow> string" where
  "join sep [] = []"
| "join sep [x] = x"
| "join sep (x # y # ys) = x @ sep @ join sep (y # ys)"

definition create_prompt :: "string \<Rightarrow> string list \<Rightarrow> string" where
  "create_prompt query contexts =
     (let context_text =
            join ([newline, newline] @ ''---'' @ [newline, newline])
              (map (\<lambda>(i, ctx). ''[Documento '' @ str_nat (i + 1) @ '']'' @ [newline] @ ctx)
                 (enumerate 0 contexts))
      in ''Baseado APENAS nos documentos fornecidos abaixo, responda a pergunta do usu''
           @ [CHR 0xE1] @ ''rio.'' @ [newline, newline]
           @ ''DOCUMENTOS:'' @ [newline] @ context_text @ [newline, newline]
           @ ''PERGUNTA: '' @ query @ [newline, newline]
           @ ''INSTRU'' @ [CHR 0xC7, CHR 0xD5] @ ''ES:'' @ [newline]
           @ ''- Use APENAS informa'' @ [CHR 0xE7, CHR 0xF5] @ ''es dos documentos fornecidos''
           @ [newline]
           @ ''- Cite as fontes usando [Documento X]'' @ [newline]
           @ ''- Se a informa'' @ [CHR 0xE7, CHR 0xE3] @ ''o n'' @ [CHR 0xE3]
           @ ''o estiver nos documentos, diga '' @ [CHR 0x22] @ ''N'' @ [CHR 0xE3]
           @ ''o encontrei essa informa'' @ [CHR 0xE7, CHR 0xE3]
           @ ''o nos documentos fornecidos'' @ [CHR 0x22] @ [newline]
           @ ''- Seja preciso e objetivo'' @ [newline, newline]
           @ ''RESPOSTA:'')"

subsection \<open>\<open>query_stream\<close>\<close>

definition no_documents_message :: string where
  "no_documents_message = ''N'' @ [CHR 0xE3] @ ''o encontrei documentos relevantes.''"

text \<open>The cached answer is replayed in slices of ten characters:
  \<open>for i in range(0, len(answer), 10): answer[i:i+10]\<close>.\<close>

fun slices :: "nat \<Rightarrow> string \<Rightarrow> string list" where
  "slices n s = (if n = 0 \<or> s = [] then [] else take n s # slices n (drop n s))"

definition replay_cached :: "response \<Rightarrow> event list" where
  "replay_cached cached =
     [Status (Message (''Cache HIT! Resposta instant'' @ [CHR 0xE2] @ ''nea''))]
       @ map Chunk (slices 10 (answer cached))
       @ [Metadata (Rag_metadata (confidence cached) ''cached''),
          Sources (sources cached)]"

text \<open>The searches of all query variants, concatenated; the first search that raises ends
  the request.\<close>

fun search_all :: "(string \<Rightarrow> error + scored list) \<Rightarrow> string list \<Rightarrow> error + scored list" where
  "search_all search [] = Inr []"
| "search_all search (q # queries) =
     (case search q of
        Inl e \<Rightarrow> Inl e
      | Inr results \<Rightarrow>
          (case search_all search queries of
             Inl e \<Rightarrow> Inl e
           | Inr all_results \<Rightarrow> Inr (results @ all_results)))"

text \<open>The \<open>seen\<close> dict keeps, for each fingerprint, the first result of the highest score.\<close>

definition add_seen :: "scored \<Rightarrow> (string \<times> scored) list \<Rightarrow> (string \<times> scored) list" where
  "add_seen r seen =
     (case r of (doc, score) \<Rightarrow>
        (let doc_id = fingerprint doc
         in case map_of seen doc_id of
              None \<Rightarrow> dict_set doc_id (doc, score) seen
            | Some (doc0, score0) \<Rightarrow>
                if score > score0 then dict_set doc_id (doc, score) seen else seen))"

text \<open>The selected documents with their scores (\<open>final_docs\<close> and \<open>final_scores\<close> are the
  two columns), and whether the reranker ran.\<close>

definition select_final ::
  "rag_system \<Rightarrow> string \<Rightarrow> bool \<Rightarrow> scored list \<Rightarrow> bool \<times> scored list" where
  "select_final rag question use_rerank all_results =
     (let seen = fold add_seen all_results [];
          unique_results = sort_desc (map snd seen);
          top_results = py_slice_to (k_documents rag * 2) unique_results
      in if use_rerank \<and> int (length top_results) > k_documents rag
         then (True, rerank_results (reranker_available rag) (predict rag) question
                       (map fst top_results) (k_documents rag))
         else (False, py_slice_to (k_documents rag) top_results))"

record stream_run =
  events :: "event list"
  raised :: "error option"
  cache_after :: "cache_manager option"
  stream_prompts :: "string list"

definition method_name :: "bool \<Rightarrow> bool \<Rightarrow> string" where
  "method_name use_hybrid use_rerank =
     ''streaming'' @ (if use_hybrid then ''_hybrid'' else [])
       @ (if use_rerank then ''_rerank'' else [])"

definition make_sources :: "scored list \<Rightarrow> source list" where
  "make_sources final =
     map (\<lambda>(doc, score).
            \<lparr>source_content = take 200 (page_content doc) @ ''...'',
             source_metadata = metadata doc,
             source_score = score\<rparr>) final"

text \<open>The query variants and their searches: \<open>all_results\<close>, or the exception of the first
  search that raises.\<close>

definition retrieve :: "rag_system \<Rightarrow> string \<Rightarrow> bool \<Rightarrow> bool \<Rightarrow> error + scored list" where
  "retrieve rag question use_hybrid use_expansion =
     (let queries = (if use_expansion then query_expansion (llm_generate rag) question
                     else [question]);
          search = (\<lambda>q. if use_hybrid
                         then hybrid_search (vectorstore rag) (bm25_search rag) q
                                (k_documents rag * 3) (7/10) None
                         else similarity_search_with_score (vectorstore rag) q
                                (k_documents rag * 3))
      in search_all search queries)"

text \<open>
  The path after a cache miss. \<open>cache0\<close> is the cache manager as the lookup left it and
  \<open>later\<close> the clocks when the answer is written. A run records the events in order, the
  exception that ended it if any, the cache manager at the end, and the prompts given to
  \<open>generate_stream\<close>.
\<close>

definition query_stream_miss ::
  "rag_system \<Rightarrow> cache_manager option \<Rightarrow> clock \<Rightarrow> string \<Rightarrow> bool \<Rightarrow> bool \<Rightarrow> bool \<Rightarrow> stream_run" where
  "query_stream_miss rag cache0 later question use_hybrid use_rerank use_expansion =
     (let ev1 = [Status (Message ''Buscando documentos...'')]
                  @ (if use_expansion then [Status (Message ''Expandindo query...'')] else [])
      in case retrieve rag question use_hybrid use_expansion of
           Inl e \<Rightarrow>
             \<lparr>events = ev1, raised = Some e, cache_after = cache0, stream_prompts = []\<rparr>
         | Inr all_results \<Rightarrow>
             (case select_final rag question use_rerank all_results of
                (reranked, final) \<Rightarrow>
                  (let ev2 = ev1 @ (if reranked then [Status (Message ''Reranking...'')] else [])
                   in if final = []
                      then \<lparr>events = ev2 @ [Chunk no_documents_message], raised = None,
                            cache_after = cache0, stream_prompts = []\<rparr>
                      else
                        (let final_docs = map fst final;
                             final_scores = map snd final;
                             contexts = map page_content final_docs;
                             prompt = create_prompt question contexts;
                             chunks = llm_generate_stream rag prompt;
                             full_answer = concat chunks;
                             avg_confidence =
                               (if final_scores \<noteq> []
                                then sum_list final_scores / real (length final_scores)
                                else 0);
                             label = method_name use_hybrid use_rerank;
                             srcs = make_sources final;
                             resp = \<lparr>answer = full_answer, confidence = avg_confidence,
                                      method_label = label, sources = srcs\<rparr>
                         in \<lparr>events = ev2 @ [Status (Message (''Gerando resposta...'' @ [newline]))]
                                       @ map Chunk chunks
                                       @ [Metadata (Rag_metadata avg_confidence label),
                                          Sources srcs],
                             raised = None,
                             cache_after =
                               (case cache0 of
                                  Some cm \<Rightarrow>
                                    if enable_cache rag
                                    then Some (set_response_cache later question resp 500 cm)
                                    else cache0
                                | None \<Rightarrow> cache0),
                             stream_prompts = [prompt]\<rparr>))))"

text \<open>The lookup at the clocks \<open>now\<close>, made when the cache is enabled: the cached response if any,
  and the cache manager with its counters updated.\<close>

definition cache_lookup ::
  "rag_system \<Rightarrow> clock \<Rightarrow> string \<Rightarrow> response option \<times> cache_manager option" where
  "cache_lookup rag now question =
     (if enable_cache rag
      then (case cache rag of
              Some cm \<Rightarrow>
                (case get_response_cache now question cm of
                   (cached, cm') \<Rightarrow> (cached, Some cm'))
            | None \<Rightarrow> (None, cache rag))
      else (None, cache rag))"

text \<open>The whole generator: the replay on a hit, the pipeline otherwise.\<close>

definition query_stream ::
  "rag_system \<Rightarrow> clock \<Rightarrow> clock \<Rightarrow> string \<Rightarrow> bool \<Rightarrow> bool \<Rightarrow> bool \<Rightarrow> stream_run" where
  "query_stream rag now later question use_hybrid use_rerank use_expansion =
     (case cache_lookup rag now question of
        (Some cached, cache0) \<Rightarrow>
          \<lparr>events = replay_cached cached, raised = None, cache_after = cache0,
           stream_prompts = []\<rparr>
      | (None, cache0) \<Rightarrow>
          query_stream_miss rag cache0 later question use_hybrid use_rerank use_expansion)"

section \<open>ToolRegistry and AutonomousAgent\<close>

text \<open>The registry's dict has these five keys.\<close>

definition registered_tools :: "string list" where
  "registered_tools =
     [''document_search'', ''calculator'', ''datetime'', ''general_knowledge'', ''web_search'']"

text \<open>
  \<open>get_tool(name)\<close> is \<open>self.tools.get(name)\<close>: the tool registered under the name, \<open>None\<close> for
  any other hashable value, and \<open>TypeError\<close> for a list or a dict, which cannot be hashed.
  A tool is identified by its name.
\<close>

fun get_tool :: "json \<Rightarrow> error + string option" where
  "get_tool (JStr name) = Inr (if name \<in> set registered_tools then Some name else None)"
| "get_tool (JArr xs) = Inl TypeError"
| "get_tool (JObj kvs) = Inl TypeError"
| "get_tool v = Inr None"

text \<open>A tool's result dict: the \<open>success\<close> flag, the \<open>tool\<close> and \<open>sources\<close> keys when
  present, and the other fields.\<close>

record tool_result =
  success :: bool
  tool :: "string option"
  result_sources :: "source list option"
  other_fields :: "(string \<times> json) list"

type_synonym plan = "string \<Rightarrow> json option"

text \<open>
  The agent with its collaborators. \<open>plan_reply i\<close> is what \<open>llm.generate\<close> returns for the
  planning prompt of iteration \<open>i\<close> (\<open>None\<close> when it raises): the backend need not answer the
  same prompt twice alike, so its replies are indexed by the iteration and not by the prompt.
  \<open>json_loads\<close> is the JSON decoder on texts that start with a brace (\<open>None\<close> when it raises);
  \<open>json_dumps\<close> is the encoder of a tool result (\<open>None\<close> when the result holds a value it
  cannot encode, which raises \<open>TypeError\<close>); \<open>execute i name input\<close> is the result of the
  registered tool at iteration \<open>i\<close> (\<open>None\<close> when it raises), with no input for \<open>datetime\<close>;
  \<open>tool_description\<close> gives the description of a registered tool. The final prompt after
  tool results is built by \<open>final_answer_prompt\<close>, which formats fields of the results and may
  raise.
\<close>

record agent =
  plan_reply :: "nat \<Rightarrow> string option"
  json_loads :: "string \<Rightarrow> plan option"
  json_dumps :: "tool_result \<Rightarrow> string option"
  execute :: "nat \<Rightarrow> string \<Rightarrow> json option \<Rightarrow> tool_result option"
  tool_description :: "string \<Rightarrow> string"
  final_answer_prompt :: "string \<Rightarrow> tool_result list \<Rightarrow> error + string"
  generate_stream :: "string \<Rightarrow> string list"

text \<open>\<open>ToolRegistry.list_tools\<close>: name and description of each registered tool.\<close>

definition list_tools :: "agent \<Rightarrow> (string \<times> string) list" where
  "list_tools ag = map (\<lambda>name. (name, tool_description ag name)) registered_tools"

definition max_iterations :: nat where
  "max_iterations = 3"

subsection \<open>\<open>_parse_json_response\<close>\<close>

text \<open>\<open>s.find(c)\<close> and \<open>s.rfind(c)\<close>: the first and the last index of the character, -1 when
  it does not occur.\<close>

definition py_find :: "char \<Rightarrow> string \<Rightarrow> int" where
  "py_find c s = (if c \<in> set s then int (length (takeWhile (\<lambda>x. x \<noteq> c) s)) else - 1)"

definition py_rfind :: "char \<Rightarrow> string \<Rightarrow> int" where
  "py_rfind c s =
     (if c \<in> set s
      then int (length s) - 1 - int (length (takeWhile (\<lambda>x. x \<noteq> c) (rev s)))
      else - 1)"

definition default_plan :: plan where
  "default_plan = [''needs_tool'' \<mapsto> JBool False, ''is_complete'' \<mapsto> JBool True]"

definition parse_json_response :: "(string \<Rightarrow> plan option) \<Rightarrow> string \<Rightarrow> plan" where
  "parse_json_response loads plan_response =
     (let start = py_find CHR ''{'' plan_response;
          end = py_rfind CHR ''}'' plan_response + 1
      in if start \<ge> 0 \<and> end > start
         then (let json_str = drop (nat start) (take (nat end) plan_response)
               in case loads json_str of
                    Some p \<Rightarrow> p
                  | None \<Rightarrow> default_plan)
         else default_plan)"

subsection \<open>\<open>_create_planning_prompt\<close>\<close>

definition planning_intro :: string where
  "planning_intro =
       ''Voc'' @ [CHR 0xEA] @ '' '' @ [CHR 0xE9]
       @ '' um assistente IA que usa ferramentas em m'' @ [CHR 0xFA] @ ''ltiplas etapas.''
       @ [newline, newline] @ ''Ferramentas:'' @ [newline]"

definition planning_rules :: string where
  "planning_rules =
       [newline, newline] @ ''IMPORTANTE:'' @ [newline]
       @ ''- Para percentuais no calculator: use '' @ [CHR 0x22] @ ''X * Y / 100''
       @ [CHR 0x22, newline] @ ''- Se j'' @ [CHR 0xE1]
       @ '' calculou algo, pode usar document_search para buscar o resultado'' @ [newline]
       @ ''- Use web_search para informa'' @ [CHR 0xE7, CHR 0xF5] @ ''es atuais, not''
       @ [CHR 0xED] @ ''cias, eventos recentes'' @ [newline]
       @ ''- Analise se precisa de mais passos'' @ [newline, newline]
       @ ''Pergunta original: ''"

definition planning_format :: string where
  "planning_format =
       [newline, newline] @ ''Decida a pr'' @ [CHR 0xF3] @ ''xima a'' @ [CHR 0xE7, CHR 0xE3]
       @ ''o. Responda em JSON:'' @ [newline] @ ''{'' @ [newline] @ ''    '' @ [CHR 0x22]
       @ ''reasoning'' @ [CHR 0x22] @ '': '' @ [CHR 0x22] @ ''an'' @ [CHR 0xE1]
       @ ''lise do que fazer agora'' @ [CHR 0x22] @ '','' @ [newline] @ ''    ''
       @ [CHR 0x22] @ ''tool'' @ [CHR 0x22] @ '': '' @ [CHR 0x22]
       @ ''nome_da_ferramenta (ou null se terminou)'' @ [CHR 0x22] @ '','' @ [newline]
       @ ''    '' @ [CHR 0x22] @ ''tool_input'' @ [CHR 0x22] @ '': '' @ [CHR 0x22]
       @ ''entrada espec'' @ [CHR 0xED] @ ''fica'' @ [CHR 0x22] @ '','' @ [newline]
       @ ''    '' @ [CHR 0x22] @ ''needs_tool'' @ [CHR 0x22] @ '': true/false,'' @ [newline]
       @ ''    '' @ [CHR 0x22] @ ''is_complete'' @ [CHR 0x22] @ '': true/false'' @ [newline]
       @ ''}'' @ [newline, newline] @ ''Se j'' @ [CHR 0xE1] @ '' tem informa''
       @ [CHR 0xE7, CHR 0xE3] @ ''o suficiente para responder, use is_complete: true.''
       @ [newline, newline] @ ''JSON:''"

text \<open>One line of the summary of earlier results: \<open>r['tool']\<close> raises \<open>KeyError\<close> on a result
  without that key, and \<open>json.dumps(r)\<close>, cut to 200 characters, raises \<open>TypeError\<close> on a value
  it cannot encode.\<close>

definition previous_line :: "agent \<Rightarrow> tool_result \<Rightarrow> error + string" where
  "previous_line ag r =
     (case tool r of
        None \<Rightarrow> Inl KeyError
      | Some name \<Rightarrow>
          (case json_dumps ag r of
             None \<Rightarrow> Inl TypeError
           | Some dumped \<Rightarrow> Inr (''- '' @ name @ '': '' @ take 200 dumped)))"

fun previous_lines :: "agent \<Rightarrow> tool_result list \<Rightarrow> error + string list" where
  "previous_lines ag [] = Inr []"
| "previous_lines ag (r # rs) =
     (case previous_line ag r of
        Inl e \<Rightarrow> Inl e
      | Inr line \<Rightarrow>
          (case previous_lines ag rs of
             Inl e \<Rightarrow> Inl e
           | Inr lines \<Rightarrow> Inr (line # lines)))"

definition create_planning_prompt ::
  "agent \<Rightarrow> string \<Rightarrow> (string \<times> string) list \<Rightarrow> tool_result list option \<Rightarrow> error + string" where
  "create_planning_prompt ag question tools_available previous_results =
     (let tools_desc =
            join [newline]
              (map (\<lambda>(name, description). ''- '' @ name @ '': '' @ description) tools_available);
          previous_context =
            (case previous_results of
               None \<Rightarrow> Inr []
             | Some results \<Rightarrow>
                 if results = [] then Inr []
                 else (case previous_lines ag results of
                         Inl e \<Rightarrow> Inl e
                       | Inr lines \<Rightarrow>
                           Inr ([newline, newline] @ ''Resultados anteriores:'' @ [newline]
                                  @ join [newline] lines)))
      in case previous_context of
           Inl e \<Rightarrow> Inl e
         | Inr context \<Rightarrow>
             Inr (planning_intro @ tools_desc @ planning_rules @ question @ [newline]
                    @ context @ planning_format))"

subsection \<open>\<open>process_stream\<close>\<close>

text \<open>\<open>plan.get(key, default)\<close>\<close>

definition plan_get :: "plan \<Rightarrow> string \<Rightarrow> json \<Rightarrow> json" where
  "plan_get p key dflt = (case p key of None \<Rightarrow> dflt | Some v \<Rightarrow> v)"

text \<open>The dispatch on the tool's name. Its last branch is the result the code prepares for a
  name that is none of the five.\<close>

definition run_tool :: "agent \<Rightarrow> nat \<Rightarrow> string \<Rightarrow> json \<Rightarrow> tool_result option" where
  "run_tool ag iteration tool_name tool_input =
     (if tool_name = ''document_search'' then execute ag iteration tool_name (Some tool_input)
      else if tool_name = ''calculator'' then execute ag iteration tool_name (Some tool_input)
      else if tool_name = ''datetime'' then execute ag iteration tool_name None
      else if tool_name = ''general_knowledge'' then execute ag iteration tool_name (Some tool_input)
      else if tool_name = ''web_search'' then execute ag iteration tool_name (Some tool_input)
      else Some \<lparr>success = False, tool = None, result_sources = None,
                 other_fields = [(''error'', JStr ''Tool desconhecida'')]\<rparr>)"

text \<open>
  The state of the loop: the events emitted so far, the accumulated tool results, the tool
  executions started (name and input, in order), how often the planner was asked, and the
  exception that left the generator, if any.
\<close>

record loop_state =
  emitted :: "event list"
  tool_results :: "tool_result list"
  invocations :: "(string \<times> json) list"
  plannings :: nat
  failure :: "error option"

datatype control = Continue | Break

text \<open>The \<open>try\<close> block of the loop body. Every exception inside it ends the loop.\<close>

definition plan_and_act :: "agent \<Rightarrow> string \<Rightarrow> nat \<Rightarrow> loop_state \<Rightarrow> control \<times> loop_state" where
  "plan_and_act ag question iteration st =
     (let st = st\<lparr>plannings := plannings st + 1\<rparr>
      in case plan_reply ag iteration of
           None \<Rightarrow> (Break, st)
         | Some plan_response \<Rightarrow>
             (let p = parse_json_response (json_loads ag) plan_response;
                  st = (case p ''reasoning'' of
                          Some r \<Rightarrow>
                            if iteration = 0 then st\<lparr>emitted := emitted st @ [Reasoning r]\<rparr>
                            else st
                        | None \<Rightarrow> st)
              in if truthy (plan_get p ''is_complete'' (JBool False))
                    \<or> \<not> truthy (plan_get p ''needs_tool'' (JBool False))
                 then (Break, st)
                 else (case p ''tool'' of
                         None \<Rightarrow> (Break, st)
                       | Some tool_name \<Rightarrow>
                           if \<not> truthy tool_name then (Break, st)
                           else
                             (let tool_input = plan_get p ''tool_input'' (JStr question);
                                  st = st\<lparr>emitted := emitted st
                                            @ [Status (Step (iteration + 1) tool_name)]\<rparr>
                              in case get_tool tool_name of
                                   Inl e \<Rightarrow> (Break, st)
                                 | Inr None \<Rightarrow> (Continue, st)
                                 | Inr (Some name) \<Rightarrow>
                                     (let st = st\<lparr>invocations := invocations st
                                                    @ [(name, tool_input)]\<rparr>
                                      in case run_tool ag iteration name tool_input of
                                           None \<Rightarrow> (Break, st)
                                         | Some result \<Rightarrow>
                                             (let st = st\<lparr>tool_results :=
                                                             tool_results st @ [result]\<rparr>
                                              in if success result
                                                 then (Continue,
                                                       st\<lparr>emitted := emitted st
                                                            @ [Tool_result True]\<rparr>)
                                                 else (Break,
                                                       st\<lparr>emitted := emitted st
                                                            @ [Tool_result False]\<rparr>)))))))"

text \<open>
  One pass of the loop body. The planning prompt is built before the \<open>try\<close>, from the tool
  results so far (\<open>None\<close> when there are none): an exception there is not caught and ends the
  whole request.
\<close>

definition iteration_step :: "agent \<Rightarrow> string \<Rightarrow> nat \<Rightarrow> loop_state \<Rightarrow> control \<times> loop_state" where
  "iteration_step ag question iteration st =
     (case create_planning_prompt ag question (list_tools ag)
             (if tool_results st \<noteq> [] then Some (tool_results st) else None) of
        Inl e \<Rightarrow> (Break, st\<lparr>failure := Some e\<rparr>)
      | Inr planning_prompt \<Rightarrow> plan_and_act ag question iteration st)"

text \<open>\<open>for iteration in range(self.max_iterations)\<close>, left by \<open>break\<close> or by an exception.\<close>

fun iterations :: "agent \<Rightarrow> string \<Rightarrow> nat list \<Rightarrow> loop_state \<Rightarrow> loop_state" where
  "iterations ag question [] st = st"
| "iterations ag question (iteration # rest) st =
     (case iteration_step ag question iteration st of
        (Break, st') \<Rightarrow> st'
      | (Continue, st') \<Rightarrow> iterations ag question rest st')"

definition agent_loop :: "agent \<Rightarrow> string \<Rightarrow> loop_state" where
  "agent_loop ag question =
     iterations ag question [0..<max_iterations]
       \<lparr>emitted = [Status (Message (''Agent iniciando an'' @ [CHR 0xE1] @ ''lise...''))],
        tool_results = [], invocations = [], plannings = 0, failure = None\<rparr>"

record agent_run =
  agent_events :: "event list"
  agent_raised :: "error option"
  final_prompts :: "string list"
  loop_end :: loop_state

text \<open>
  The synthesis after the loop, reached unless the loop raised. The final prompt is built
  after the status event and may raise; \<open>r['tool']\<close> in the metadata raises \<open>KeyError\<close> on a
  result without that key.
\<close>

definition process_stream :: "agent \<Rightarrow> string \<Rightarrow> agent_run" where
  "process_stream ag question =
     (let st = agent_loop ag question
      in case failure st of
           Some e \<Rightarrow>
             \<lparr>agent_events = emitted st, agent_raised = Some e, final_prompts = [],
              loop_end = st\<rparr>
         | None \<Rightarrow>
             (let results = tool_results st;
                  ev0 = emitted st
                          @ [Status (Message (''Sintetizando resposta...'' @ [newline]))]
              in case (if results \<noteq> [] then final_answer_prompt ag question results
                       else Inr (''Responda:'' @ [newline, newline] @ question)) of
                   Inl e \<Rightarrow>
                     \<lparr>agent_events = ev0, agent_raised = Some e, final_prompts = [],
                      loop_end = st\<rparr>
                 | Inr final_prompt \<Rightarrow>
                     (let chunks = generate_stream ag final_prompt;
                          ev = ev0 @ map Chunk chunks
                      in if list_ex (\<lambda>r. tool r = None) results
                         then \<lparr>agent_events = ev, agent_raised = Some KeyError,
                               final_prompts = [final_prompt], loop_end = st\<rparr>
                         else
                           (let tools_used = map (\<lambda>r. the (tool r)) results;
                                srcs = concat
                                  (map (\<lambda>r. if tool r = Some ''document_search''
                                            then (case result_sources r of
                                                    Some ss \<Rightarrow> ss | None \<Rightarrow> [])
                                            else []) results)
                            in \<lparr>agent_events =
                                   ev @ [Metadata
                                           (Agent_metadata True tools_used (length results))]
                                      @ (if srcs \<noteq> [] then [Sources srcs] else []),
                                agent_raised = None,
                                final_prompts = [final_prompt], loop_end = st\<rparr>))))"

section \<open>Properties of the agent loop: what is observed\<close>

fun is_reasoning :: "event \<Rightarrow> bool" where
  "is_reasoning (Reasoning r) = True"
| "is_reasoning e = False"

text \<open>The reasoning event of the first iteration: present when the backend replied and the
  parsed plan has the key \<open>reasoning\<close>.\<close>

definition first_reasoning :: "agent \<Rightarrow> event list" where
  "first_reasoning ag =
     (case plan_reply ag 0 of
        None \<Rightarrow> []
      | Some plan_response \<Rightarrow>
          (case parse_json_response (json_loads ag) plan_response ''reasoning'' of
             None \<Rightarrow> []
           | Some r \<Rightarrow> [Reasoning r]))"

subsection \<open>Two concrete planners\<close>

definition quoted :: "string \<Rightarrow> string" where
  "quoted s = [CHR 0x22] @ s @ [CHR 0x22]"

text \<open>A backend that always answers
  \<open>{"needs_tool": true, "is_complete": false, "tool": "foo", "tool_input": "x"}\<close>,
  naming a tool that is not registered.\<close>

definition unknown_tool_reply :: string where
  "unknown_tool_reply =
     ''{'' @ quoted ''needs_tool'' @ '': true, '' @ quoted ''is_complete'' @ '': false, ''
       @ quoted ''tool'' @ '': '' @ quoted ''foo'' @ '', ''
       @ quoted ''tool_input'' @ '': '' @ quoted ''x'' @ ''}''"

definition unknown_tool_plan :: plan where
  "unknown_tool_plan =
     [''needs_tool'' \<mapsto> JBool True, ''is_complete'' \<mapsto> JBool False,
      ''tool'' \<mapsto> JStr ''foo'', ''tool_input'' \<mapsto> JStr ''x'']"

definition unknown_tool_agent :: agent where
  "unknown_tool_agent =
     \<lparr>plan_reply = (\<lambda>i. Some unknown_tool_reply),
      json_loads = (\<lambda>s. if s = unknown_tool_reply then Some unknown_tool_plan else None),
      json_dumps = (\<lambda>r. Some ''{}''),
      execute = (\<lambda>i name input.
                   Some \<lparr>success = True, tool = Some name, result_sources = None,
                         other_fields = []\<rparr>),
      tool_description = (\<lambda>name. name),
      final_answer_prompt = (\<lambda>question results. Inr question),
      generate_stream = (\<lambda>prompt. [''ok''])\<rparr>"

text \<open>A backend that always answers, with some prose around the braces,
  \<open>{"reasoning": "compute", "needs_tool": true, "is_complete": false, "tool": "calculator",
  "tool_input": "2 + 2"}\<close>.\<close>

definition calculator_reply :: string where
  "calculator_reply =
     ''Plan: {'' @ quoted ''reasoning'' @ '': '' @ quoted ''compute'' @ '', ''
       @ quoted ''needs_tool'' @ '': true, '' @ quoted ''is_complete'' @ '': false, ''
       @ quoted ''tool'' @ '': '' @ quoted ''calculator'' @ '', ''
       @ quoted ''tool_input'' @ '': '' @ quoted ''2 + 2'' @ ''} done''"

definition calculator_plan :: plan where
  "calculator_plan =
     [''reasoning'' \<mapsto> JStr ''compute'',
      ''needs_tool'' \<mapsto> JBool True, ''is_complete'' \<mapsto> JBool False,
      ''tool'' \<mapsto> JStr ''calculator'', ''tool_input'' \<mapsto> JStr ''2 + 2'']"

definition calculator_agent :: agent where
  "calculator_agent =
     \<lparr>plan_reply = (\<lambda>i. Some calculator_reply),
      json_loads = (\<lambda>s. if s = drop 6 (take (length calculator_reply - 5) calculator_reply)
                         then Some calculator_plan else None),
      json_dumps = (\<lambda>r. Some ''{}''),
      execute = (\<lambda>i name input.
                   Some \<lparr>success = True, tool = Some name, result_sources = None,
                         other_fields = [(''result'', JInt 4)]\<rparr>),
      tool_description = (\<lambda>name. name),
      final_answer_prompt = (\<lambda>question results. Inr question),
      generate_stream = (\<lambda>prompt. [''4''])\<rparr>"

section \<open>Properties of retrieval and cache: what is observed, and concrete systems\<close>



text \<open>The claim's words "differ only in letter case or whitespace": equal once lowercased
  and with all whitespace removed.\<close>

definition without_case_and_whitespace :: "string \<Rightarrow> string" where
  "without_case_and_whitespace s = filter (\<lambda>c. \<not> is_space c) (lower s)"

definition differ_only_in_case_or_whitespace :: "string \<Rightarrow> string \<Rightarrow> bool" where
  "differ_only_in_case_or_whitespace q1 q2 =
     (without_case_and_whitespace q1 = without_case_and_whitespace q2)"

definition doc_a :: document where
  "doc_a = \<lparr>page_content = ''alpha'', metadata = []\<rparr>"

definition doc_b :: document where
  "doc_b = \<lparr>page_content = ''beta'', metadata = []\<rparr>"

definition empty_cache :: cache_manager where
  "empty_cache =
     \<lparr>response_cache = Map.empty, response_hits = 0, response_misses = 0,
      total_tokens_saved = 0, estimated_cost_saved = 0\<rparr>"

text \<open>
  A system over two documents, without cross-encoder; one whose loaded index holds no chunk;
  and one whose index holds chunks but answers every search with no result (a stand-in
  index, as the search interface allows).
\<close>

definition example_rag :: rag_system where
  "example_rag =
     \<lparr>vectorstore = Some \<lparr>collection_count = 2,
                          search_with_score = (\<lambda>q k. [(doc_a, 1), (doc_b, 3)])\<rparr>,
      bm25_search = (\<lambda>q k. [(doc_b, 2)]),
      reranker_available = False,
      predict = (\<lambda>q contents. None),
      k_documents = 5,
      enable_cache = True,
      cache = Some empty_cache,
      llm_generate = (\<lambda>prompt. None),
      llm_generate_stream = (\<lambda>prompt. [''alpha and '', ''beta''])\<rparr>"

definition empty_corpus_rag :: rag_system where
  "empty_corpus_rag =
     \<lparr>vectorstore = Some \<lparr>collection_count = 0, search_with_score = (\<lambda>q k. [])\<rparr>,
      bm25_search = (\<lambda>q k. []),
      reranker_available = False,
      predict = (\<lambda>q contents. None),
      k_documents = 5,
      enable_cache = True,
      cache = Some empty_cache,
      llm_generate = (\<lambda>prompt. None),
      llm_generate_stream = (\<lambda>prompt. [''never asked''])\<rparr>"


text \<open>A reply to the expansion prompt: two usable lines, a short one, a repetition of the
  query, and a line beyond the limit.\<close>

definition expansion_reply :: string where
  "expansion_reply =
     ''1. What is the capital of France?'' @ [newline]
       @ ''2. short'' @ [newline]
       @ ''- capital of France?'' @ [newline]
       @ variacao @ '' 2: Which city is the capital of France?'' @ [newline]
       @ ''Another long variation that is cut''"

section \<open>Fusion at the extreme weights: what is compared\<close>

text \<open>The fingerprints of a result list, and the score a list gives to a fingerprint (that of
  the first result with it).\<close>

definition fingerprints :: "scored list \<Rightarrow> string set" where
  "fingerprints results = fingerprint ` fst ` set results"

definition key_score :: "scored list \<Rightarrow> string \<Rightarrow> real option" where
  "key_score results = map_of (map (\<lambda>(doc, s). (fingerprint doc, s)) results)"

definition score_at :: "scored list \<Rightarrow> document \<Rightarrow> real" where
  "score_at results doc = (case key_score results (fingerprint doc) of None \<Rightarrow> 0 | Some s \<Rightarrow> s)"

text \<open>The keyword results whose fingerprint no vector result has.\<close>

definition keyword_only :: "scored list \<Rightarrow> scored list \<Rightarrow> scored list" where
  "keyword_only vector_results keyword_norm =
     filter (\<lambda>(doc, s). fingerprint doc \<notin> fingerprints vector_results) keyword_norm"

text \<open>The claim's words "the pure ranking of a list after normalization": the list
  normalised and sorted by descending score.\<close>

definition pure_ranking :: "scored list \<Rightarrow> scored list" where
  "pure_ranking results = sort_desc (normalize results)"

definition doc_c :: document where
  "doc_c = \<lparr>page_content = ''gamma'', metadata = []\<rparr>"

section \<open>Hybrid fusion on the scenario of two chunks\<close>

text \<open>
  C1. As stated (second chunk first with 0.5, first chunk second with 0.45) the scenario fails:
  the scores are min-max normalised before they are weighted, so the vector scores 0.9 and 0.2
  become 1 and 0, and the single keyword score 0.8 becomes 0.
\<close>

theorem C1_scenario_B_counterexample:
  "fingerprint \<lparr>page_content = ''alpha'', metadata = []\<rparr>
     \<noteq> fingerprint \<lparr>page_content = ''beta'', metadata = []\<rparr>
   \<and> combine_results
       [(\<lparr>page_content = ''alpha'', metadata = []\<rparr>, 9/10),
        (\<lparr>page_content = ''beta'', metadata = []\<rparr>, 2/10)]
       [(\<lparr>page_content = ''beta'', metadata = []\<rparr>, 8/10)] (5/10) None
     \<noteq> [(\<lparr>page_content = ''beta'', metadata = []\<rparr>, 5/10),
         (\<lparr>page_content = ''alpha'', metadata = []\<rparr>, 45/100)]"
  by (simp add: combine_results_def normalize_def Let_def add_vector_def add_keyword_def
      fingerprint_def apply_filter_def sort_desc_def)

text \<open>
  C1 (amended). For two chunks of distinct fingerprints, fusing the vector list
  [(c1, 0.9), (c2, 0.2)] with the keyword list [(c2, 0.8)] at weight 0.5 places c1 first with
  score 0.5 (normalised vector score 1, times 0.5) and c2 second with score 0 (both of its
  normalised scores are 0).
\<close>

theorem C1_scenario_B_fused:
  assumes "fingerprint c1 \<noteq> fingerprint c2"
  shows "combine_results [(c1, 9/10), (c2, 2/10)] [(c2, 8/10)] (5/10) None
           = [(c1, 5/10), (c2, 0)]"
  using assms
  by (simp add: combine_results_def normalize_def Let_def add_vector_def add_keyword_def
      apply_filter_def sort_desc_def)

theorem C1_scenario_B_fused_witness:
  "fingerprint \<lparr>page_content = ''alpha'', metadata = []\<rparr>
     \<noteq> fingerprint \<lparr>page_content = ''beta'', metadata = []\<rparr>
   \<and> combine_results
       [(\<lparr>page_content = ''alpha'', metadata = []\<rparr>, 9/10),
        (\<lparr>page_content = ''beta'', metadata = []\<rparr>, 2/10)]
       [(\<lparr>page_content = ''beta'', metadata = []\<rparr>, 8/10)] (5/10) None
     = [(\<lparr>page_content = ''alpha'', metadata = []\<rparr>, 5/10),
        (\<lparr>page_content = ''beta'', metadata = []\<rparr>, 0)]"
proof -
  have h: "fingerprint \<lparr>page_content = ''alpha'', metadata = []\<rparr>
     \<noteq> fingerprint \<lparr>page_content = ''beta'', metadata = []\<rparr>"
    by (simp add: fingerprint_def)
  show ?thesis using h C1_scenario_B_fused [OF h] by simp
qed

section \<open>Descending scores\<close>

lemma sort_desc_descending: "descending (map snd (sort_desc xs))"
proof -
  have "sorted (map (\<lambda>x. - snd x) (sort_desc xs))"
    by (simp add: sort_desc_def)
  then show ?thesis
    by (simp add: sorted_wrt_map)
qed

lemma py_slice_to_descending:
  "descending (map snd xs) \<Longrightarrow> descending (map snd (py_slice_to k xs))"
  by (simp add: py_slice_to_def take_map [symmetric] sorted_wrt_take del: take_map)

lemma combine_results_descending:
  "descending (map snd (combine_results vs ks w f))"
  by (simp add: combine_results_def Let_def sort_desc_descending)

lemma enumerate_descending:
  "descending (map snd (map (\<lambda>(i, doc). (doc, 1 - real i * (1/10))) (enumerate n xs)))"
proof (induction xs arbitrary: n)
  case Nil
  then show ?case by simp
next
  case (Cons x xs)
  have "\<And>p. p \<in> set (enumerate (Suc n) xs) \<Longrightarrow> n \<le> fst p"
    by (auto simp: in_set_enumerate_eq)
  then show ?case using Cons.IH [of "Suc n"]
    by (auto simp: case_prod_beta)
qed

lemma rerank_fallback_descending:
  "descending (map snd (rerank_fallback documents top_k))"
  by (simp only: rerank_fallback_def enumerate_descending)

lemma rerank_results_descending:
  "descending (map snd (rerank_results avail pr query docs top_k))"
  by (auto simp add: rerank_results_def Let_def rerank_fallback_descending 
      py_slice_to_descending sort_desc_descending split: option.splits)

lemma select_final_descending:
  "descending (map snd (snd (select_final rag question use_rerank all_results)))"
  by (simp add: select_final_def Let_def rerank_results_descending
      py_slice_to_descending sort_desc_descending)

lemma hybrid_search_descending:
  "hybrid_search store bm25 query k w f = Inr rs \<Longrightarrow> descending (map snd rs)"
  by (auto simp: hybrid_search_def Let_def py_slice_to_descending combine_results_descending
      split: sum.splits)

section \<open>The agent loop\<close>

lemma unknown_parse: "parse_json_response (json_loads unknown_tool_agent) unknown_tool_reply = unknown_tool_plan"
  by (simp add: parse_json_response_def unknown_tool_agent_def unknown_tool_reply_def quoted_def py_find_def py_rfind_def)

lemma calc_parse: "parse_json_response (json_loads calculator_agent) calculator_reply = calculator_plan"
  by (simp add: parse_json_response_def calculator_agent_def calculator_reply_def quoted_def py_find_def py_rfind_def)

text \<open>When the planning prompt can be built, a pass is its \<open>try\<close> block: with no result yet,
  and with results that all have their \<open>tool\<close> key and can be encoded.\<close>

lemma iteration_step_fresh:
  "tool_results st = [] \<Longrightarrow> iteration_step ag question i st = plan_and_act ag question i st"
  by (simp add: iteration_step_def create_planning_prompt_def Let_def)

lemma previous_lines_encodable:
  "list_all (\<lambda>r. tool r \<noteq> None \<and> json_dumps ag r \<noteq> None) rs \<Longrightarrow>
   \<exists>ls. previous_lines ag rs = Inr ls"
  by (induction rs) (auto simp: previous_line_def)

lemma iteration_step_encodable:
  assumes "list_all (\<lambda>r. tool r \<noteq> None \<and> json_dumps ag r \<noteq> None) (tool_results st)"
  shows "iteration_step ag question i st = plan_and_act ag question i st"
proof -
  from previous_lines_encodable [OF assms] obtain ls
    where "previous_lines ag (tool_results st) = Inr ls" by blast
  then show ?thesis
    by (simp add: iteration_step_def create_planning_prompt_def Let_def)
qed

lemma calculator_act:
  "plan_and_act calculator_agent question i st =
     (Continue,
      st\<lparr>plannings := plannings st + 1,
         emitted := emitted st @ (if i = 0 then [Reasoning (JStr ''compute'')] else [])
                      @ [Status (Step (i + 1) (JStr ''calculator'')), Tool_result True],
         invocations := invocations st @ [(''calculator'', JStr ''2 + 2'')],
         tool_results := tool_results st
            @ [\<lparr>success = True, tool = Some ''calculator'', result_sources = None,
                 other_fields = [(''result'', JInt 4)]\<rparr>]\<rparr>)"
proof -
  have reply: "plan_reply calculator_agent i = Some calculator_reply"
    by (simp add: calculator_agent_def)
  have run: "run_tool calculator_agent i ''calculator'' v =
      Some \<lparr>success = True, tool = Some ''calculator'', result_sources = None,
                 other_fields = [(''result'', JInt 4)]\<rparr>" for v
    by (simp add: run_tool_def calculator_agent_def)
  show ?thesis
    unfolding plan_and_act_def reply
    by (simp add: calc_parse Let_def calculator_plan_def plan_get_def registered_tools_def run)
qed

lemma calculator_step:
  assumes "list_all (\<lambda>r. tool r \<noteq> None) (tool_results st)"
  shows "iteration_step calculator_agent question i st =
     (Continue,
      st\<lparr>plannings := plannings st + 1,
         emitted := emitted st @ (if i = 0 then [Reasoning (JStr ''compute'')] else [])
                      @ [Status (Step (i + 1) (JStr ''calculator'')), Tool_result True],
         invocations := invocations st @ [(''calculator'', JStr ''2 + 2'')],
         tool_results := tool_results st
            @ [\<lparr>success = True, tool = Some ''calculator'', result_sources = None,
                 other_fields = [(''result'', JInt 4)]\<rparr>]\<rparr>)"
proof -
  have "json_dumps calculator_agent r \<noteq> None" for r
    by (simp add: calculator_agent_def)
  with assms
  have "list_all (\<lambda>r. tool r \<noteq> None \<and> json_dumps calculator_agent r \<noteq> None) (tool_results st)"
    by (simp add: list_all_iff)
  then show ?thesis
    by (simp only: iteration_step_encodable calculator_act)
qed

lemma calculator_loop:
  "agent_loop calculator_agent ''q'' =
     \<lparr>emitted = [Status (Message (''Agent iniciando an'' @ [CHR 0xE1] @ ''lise...'')),
        Reasoning (JStr ''compute''),
        Status (Step 1 (JStr ''calculator'')), Tool_result True,
        Status (Step 2 (JStr ''calculator'')), Tool_result True,
        Status (Step 3 (JStr ''calculator'')), Tool_result True],
      tool_results = replicate 3 \<lparr>success = True, tool = Some ''calculator'',
         result_sources = None, other_fields = [(''result'', JInt 4)]\<rparr>,
      invocations = replicate 3 (''calculator'', JStr ''2 + 2''),
      plannings = 3, failure = None\<rparr>"
proof -
  have upt: "[0..<max_iterations] = [0, 1, 2]"
    by (simp add: max_iterations_def upt_rec)
  show ?thesis
    unfolding agent_loop_def upt by (simp add: calculator_step numeral_3_eq_3)
qed

lemma plan_and_act_invocations:
  "plan_and_act ag question i st = (c, st') \<Longrightarrow>
   length (invocations st') \<le> Suc (length (invocations st))"
  by (auto simp: plan_and_act_def Let_def
      split: option.splits if_splits sum.splits)

lemma iteration_step_invocations:
  assumes "iteration_step ag question i st = (c, st')"
  shows "length (invocations st') \<le> Suc (length (invocations st))"
proof (cases "create_planning_prompt ag question (list_tools ag)
                (if tool_results st \<noteq> [] then Some (tool_results st) else None)")
  case (Inl e)
  with assms have "st' = st\<lparr>failure := Some e\<rparr>"
    by (simp add: iteration_step_def)
  then show ?thesis by simp
next
  case (Inr prompt)
  with assms have "plan_and_act ag question i st = (c, st')"
    by (simp add: iteration_step_def)
  then show ?thesis by (rule plan_and_act_invocations)
qed

lemma iterations_invocations:
  "length (invocations (iterations ag question its st)) \<le> length (invocations st) + length its"
proof (induction its arbitrary: st)
  case Nil
  then show ?case by simp
next
  case (Cons i its)
  obtain c st' where step: "iteration_step ag question i st = (c, st')"
    by (cases "iteration_step ag question i st")
  from iteration_step_invocations [OF step]
  have le: "length (invocations st') \<le> Suc (length (invocations st))" .
  show ?case
  proof (cases c)
    case Continue
    with step Cons.IH [of st'] le show ?thesis by simp
  next
    case Break
    with step le show ?thesis by simp
  qed
qed

lemma loop_end_process_stream:
  "loop_end (process_stream ag question) = agent_loop ag question"
  by (simp add: process_stream_def Let_def split: option.split sum.split)

text \<open>
  C3. Whatever the planner replies, whatever the tools return and whether or not the request
  ends with an exception, \<open>process_stream\<close> starts at most three tool executions
  (\<open>max_iterations = 3\<close>, at most one per iteration).
\<close>

theorem C3_tool_invocations_bounded:
  "length (invocations (loop_end (process_stream ag question))) \<le> 3"
proof -
  have "length (invocations (agent_loop ag question)) \<le> 0 + length [0..<max_iterations]"
    unfolding agent_loop_def
    by (rule order_trans [OF iterations_invocations]) simp
  then have "length (invocations (agent_loop ag question)) \<le> 3"
    by (simp add: max_iterations_def)
  then show ?thesis
    by (simp only: loop_end_process_stream)
qed

theorem C3_witness:
  "length (invocations (loop_end (process_stream calculator_agent ''q''))) = 3
   \<and> length (invocations (loop_end (process_stream calculator_agent ''q''))) \<le> 3"
  using C3_tool_invocations_bounded [of calculator_agent "''q''"]
  by (simp add: loop_end_process_stream calculator_loop)

lemma plan_and_act_reasoning:
  "plan_and_act ag question i st = (c, st') \<Longrightarrow>
   filter is_reasoning (emitted st') =
   filter is_reasoning (emitted st) @ (if i = 0 then first_reasoning ag else [])"
  by (auto simp: plan_and_act_def Let_def first_reasoning_def
      split: option.splits if_splits sum.splits)

lemma iteration_step_reasoning:
  assumes "iteration_step ag question i st = (c, st')"
    and "i = 0 \<longrightarrow> tool_results st = []"
  shows "filter is_reasoning (emitted st') =
         filter is_reasoning (emitted st) @ (if i = 0 then first_reasoning ag else [])"
proof (cases "create_planning_prompt ag question (list_tools ag)
                (if tool_results st \<noteq> [] then Some (tool_results st) else None)")
  case (Inl e)
  with assms(2) have later: "i \<noteq> 0"
    by (auto simp: create_planning_prompt_def Let_def)
  from Inl assms(1) have "st' = st\<lparr>failure := Some e\<rparr>"
    by (simp add: iteration_step_def)
  with later show ?thesis by simp
next
  case (Inr prompt)
  with assms(1) have "plan_and_act ag question i st = (c, st')"
    by (simp add: iteration_step_def)
  then show ?thesis by (rule plan_and_act_reasoning)
qed

lemma iterations_later_reasoning:
  "\<forall>i \<in> set its. 0 < i \<Longrightarrow>
   filter is_reasoning (emitted (iterations ag question its st)) =
   filter is_reasoning (emitted st)"
proof (induction its arbitrary: st)
  case Nil
  then show ?case by simp
next
  case (Cons i its)
  obtain c st' where step: "iteration_step ag question i st = (c, st')"
    by (cases "iteration_step ag question i st")
  from Cons.prems have pos: "0 < i" by simp
  then have "i = 0 \<longrightarrow> tool_results st = []" by simp
  from iteration_step_reasoning [OF step this] pos
  have same: "filter is_reasoning (emitted st') = filter is_reasoning (emitted st)" by simp
  show ?case
  proof (cases c)
    case Continue
    with step same Cons.IH [of st'] Cons.prems show ?thesis by simp
  next
    case Break
    with step same show ?thesis by simp
  qed
qed

lemma agent_loop_reasoning:
  "filter is_reasoning (emitted (agent_loop ag question)) = first_reasoning ag"
proof -
  let ?st0 = "\<lparr>emitted = [Status (Message (''Agent iniciando an'' @ [CHR 0xE1] @ ''lise...''))],
        tool_results = [], invocations = [], plannings = 0, failure = None\<rparr>"
  obtain c st' where step: "iteration_step ag question 0 ?st0 = (c, st')"
    by (cases "iteration_step ag question 0 ?st0")
  have "(0::nat) = 0 \<longrightarrow> tool_results ?st0 = []" by simp
  from iteration_step_reasoning [OF step this]
  have first: "filter is_reasoning (emitted st') = first_reasoning ag" by simp
  have upt: "[0..<max_iterations] = 0 # [1, 2]"
    by (simp add: max_iterations_def upt_rec)
  show ?thesis
  proof (cases c)
    case Continue
    have "filter is_reasoning (emitted (iterations ag question [1, 2] st')) =
          filter is_reasoning (emitted st')"
      by (rule iterations_later_reasoning) simp
    with step first Continue show ?thesis
      unfolding agent_loop_def upt by simp
  next
    case Break
    with step first show ?thesis
      unfolding agent_loop_def upt by simp
  qed
qed

text \<open>
  C10. The reasoning events of a request are exactly the one of the first iteration, emitted
  when the backend replied there and the parsed plan has the key \<open>reasoning\<close>; hence at most
  one, and none from a later iteration whatever its plan holds.
\<close>

theorem C10_one_reasoning_event:
  "filter is_reasoning (agent_events (process_stream ag question)) = first_reasoning ag
   \<and> length (filter is_reasoning (agent_events (process_stream ag question))) \<le> 1"
proof -
  have a: "filter is_reasoning (agent_events (process_stream ag question)) = first_reasoning ag"
    by (simp add: process_stream_def Let_def agent_loop_reasoning o_def
        split: option.split sum.split)
  have "length (first_reasoning ag) \<le> 1"
    by (simp add: first_reasoning_def split: option.splits)
  with a show ?thesis by simp
qed

theorem C10_witness:
  "filter is_reasoning (agent_events (process_stream calculator_agent ''q''))
     = [Reasoning (JStr ''compute'')]"
proof -
  have reply: "plan_reply calculator_agent 0 = Some calculator_reply"
    by (simp add: calculator_agent_def)
  have "first_reasoning calculator_agent = [Reasoning (JStr ''compute'')]"
    unfolding first_reasoning_def reply
    by (simp add: calc_parse calculator_plan_def)
  with C10_one_reasoning_event [of calculator_agent "''q''"] show ?thesis
    by simp
qed

lemma unknown_tool_act:
  "plan_and_act unknown_tool_agent question i st =
     (Continue, st\<lparr>plannings := plannings st + 1,
                     emitted := emitted st @ [Status (Step (i + 1) (JStr ''foo''))]\<rparr>)"
proof -
  have reply: "plan_reply unknown_tool_agent i = Some unknown_tool_reply"
    by (simp add: unknown_tool_agent_def)
  show ?thesis
    unfolding plan_and_act_def reply
    by (simp add: unknown_parse Let_def unknown_tool_plan_def plan_get_def registered_tools_def)
qed

text \<open>
  C2. A plan naming the unregistered tool \<open>foo\<close> in every iteration: \<open>get_tool\<close> returns
  \<open>None\<close>, the body falls through \<open>if tool:\<close>, no tool result is recorded and no tool result
  event is emitted, and the planner is asked again until the three iterations are used up.
\<close>

theorem C2_unknown_tool_is_replanned:
  "get_tool (JStr ''foo'') = Inr None
   \<and> tool_results (loop_end (process_stream unknown_tool_agent ''q'')) = []
   \<and> plannings (loop_end (process_stream unknown_tool_agent ''q'')) = 3
   \<and> filter (\<lambda>e. case e of Tool_result ok \<Rightarrow> True | _ \<Rightarrow> False)
        (agent_events (process_stream unknown_tool_agent ''q'')) = []
   \<and> emitted (loop_end (process_stream unknown_tool_agent ''q'')) =
       [Status (Message (''Agent iniciando an'' @ [CHR 0xE1] @ ''lise...'')),
        Status (Step 1 (JStr ''foo'')), Status (Step 2 (JStr ''foo'')),
        Status (Step 3 (JStr ''foo''))]"
proof -
  have upt: "[0..<max_iterations] = [0, 1, 2]"
    by (simp add: max_iterations_def upt_rec)
  have loop: "agent_loop unknown_tool_agent ''q'' =
     \<lparr>emitted = [Status (Message (''Agent iniciando an'' @ [CHR 0xE1] @ ''lise...'')),
        Status (Step 1 (JStr ''foo'')), Status (Step 2 (JStr ''foo'')),
        Status (Step 3 (JStr ''foo''))],
      tool_results = [], invocations = [], plannings = 3, failure = None\<rparr>"
    unfolding agent_loop_def upt by (simp add: iteration_step_fresh unknown_tool_act)
  have gen: "generate_stream unknown_tool_agent p = [''ok'']" for p
    by (simp add: unknown_tool_agent_def)
  show ?thesis
    by (simp add: process_stream_def Let_def loop gen registered_tools_def)
qed

text \<open>A calculator result that cannot be encoded (the expression \<open>...\<close> evaluates to Python's
  \<open>Ellipsis\<close>): the prompt of the second pass raises \<open>TypeError\<close> out of the request, after one
  tool execution and before any synthesis.\<close>

lemma unencodable_result_ends_request:
  "agent_raised (process_stream (calculator_agent\<lparr>json_dumps := (\<lambda>r. None)\<rparr>) ''q'')
     = Some TypeError
   \<and> final_prompts (process_stream (calculator_agent\<lparr>json_dumps := (\<lambda>r. None)\<rparr>) ''q'') = []
   \<and> length (invocations (loop_end
        (process_stream (calculator_agent\<lparr>json_dumps := (\<lambda>r. None)\<rparr>) ''q''))) = 1"
proof -
  let ?ag = "calculator_agent\<lparr>json_dumps := (\<lambda>r. None)\<rparr>"
  let ?r = "\<lparr>success = True, tool = Some ''calculator'', result_sources = None,
             other_fields = [(''result'', JInt 4)]\<rparr>"
  have reply: "plan_reply ?ag i = Some calculator_reply" for i
    by (simp add: calculator_agent_def)
  have loads: "json_loads ?ag = json_loads calculator_agent"
    by simp
  have run: "run_tool ?ag i ''calculator'' v = Some ?r" for i v
    by (simp add: run_tool_def calculator_agent_def)
  have act: "plan_and_act ?ag question i st =
     (Continue,
      st\<lparr>plannings := plannings st + 1,
         emitted := emitted st @ (if i = 0 then [Reasoning (JStr ''compute'')] else [])
                      @ [Status (Step (i + 1) (JStr ''calculator'')), Tool_result True],
         invocations := invocations st @ [(''calculator'', JStr ''2 + 2'')],
         tool_results := tool_results st @ [?r]\<rparr>)" for question i st
    unfolding plan_and_act_def reply loads
    by (simp add: calc_parse Let_def calculator_plan_def plan_get_def registered_tools_def run)
  have first: "iteration_step ?ag ''q'' 0 st = plan_and_act ?ag ''q'' 0 st"
    if "tool_results st = []" for st
    using that by (simp only: iteration_step_fresh)
  have second: "iteration_step ?ag ''q'' i st = (Break, st\<lparr>failure := Some TypeError\<rparr>)"
    if "tool_results st = [?r]" for i st
    using that
    by (simp add: iteration_step_def create_planning_prompt_def Let_def previous_line_def)
  have upt: "[0..<max_iterations] = [0, 1, 2]"
    by (simp add: max_iterations_def upt_rec)
  have loop: "agent_loop ?ag ''q'' =
     \<lparr>emitted = [Status (Message (''Agent iniciando an'' @ [CHR 0xE1] @ ''lise...'')),
        Reasoning (JStr ''compute''),
        Status (Step 1 (JStr ''calculator'')), Tool_result True],
      tool_results = [?r],
      invocations = [(''calculator'', JStr ''2 + 2'')],
      plannings = 1, failure = Some TypeError\<rparr>"
    unfolding agent_loop_def upt by (simp add: first second act)
  show ?thesis
    by (simp add: process_stream_def Let_def loop)
qed

section \<open>Descending scores: the claim\<close>

text \<open>
  C6. The scores of every list handed back are non-increasing by position: the output of
  \<open>hybrid_search\<close> (when the index does not raise), of \<open>rerank_results\<close> on the model path
  and on both fallback paths, and the final selection of \<open>query_stream\<close>.
\<close>

theorem C6_scores_descending:
  "(case hybrid_search store bm25 query k w f of
      Inl e \<Rightarrow> True
    | Inr results \<Rightarrow> descending (map snd results))
   \<and> descending (map snd (rerank_results avail pr query docs top_k))
   \<and> descending (map snd (snd (select_final rag question use_rerank all_results)))"
  by (simp add: rerank_results_descending select_final_descending hybrid_search_descending
      split: sum.split)

lemma fingerprint_a_b: "fingerprint doc_a \<noteq> fingerprint doc_b"
  by (simp add: fingerprint_def doc_a_def doc_b_def)

lemma hybrid_example:
  "hybrid_search
     (Some \<lparr>collection_count = 2, search_with_score = (\<lambda>q k. [(doc_a, 1), (doc_b, 3)])\<rparr>)
     (\<lambda>q k. [(doc_b, 2)]) ''q'' 5 (7/10) None
     = Inr [(doc_a, 7/10), (doc_b, 0)]"
  using fingerprint_a_b
  by (simp add: hybrid_search_def similarity_search_with_score_def combine_results_def
      normalize_def Let_def add_vector_def add_keyword_def apply_filter_def sort_desc_def
      py_slice_to_def)

lemma select_example:
  "select_final example_rag ''q'' True [(doc_a, 7/10), (doc_b, 0)]
     = (False, [(doc_a, 7/10), (doc_b, 0)])"
  using fingerprint_a_b
  by (simp add: select_final_def add_seen_def Let_def sort_desc_def py_slice_to_def
      example_rag_def)

theorem C6_witness:
  "hybrid_search
     (Some \<lparr>collection_count = 2, search_with_score = (\<lambda>q k. [(doc_a, 1), (doc_b, 3)])\<rparr>)
     (\<lambda>q k. [(doc_b, 2)]) ''q'' 5 (7/10) None
     = Inr [(doc_a, 7/10), (doc_b, 0)]
   \<and> descending (map snd [(doc_a, 7/10 :: real), (doc_b, 0)])
   \<and> descending (map snd (rerank_results False (\<lambda>q cs. None) ''q'' [doc_a, doc_b] 5))
   \<and> descending (map snd (snd (select_final example_rag ''q'' True [(doc_a, 7/10), (doc_b, 0)])))"
proof -
  have "(case hybrid_search
     (Some \<lparr>collection_count = 2, search_with_score = (\<lambda>q k. [(doc_a, 1), (doc_b, 3)])\<rparr>)
     (\<lambda>q k. [(doc_b, 2)])
               ''q'' 5 (7/10) None of
           Inl e \<Rightarrow> True
         | Inr results \<Rightarrow> descending (map snd results))
     \<and> descending (map snd (rerank_results False (\<lambda>q cs. None) ''q'' [doc_a, doc_b] 5))
     \<and> descending (map snd (snd (select_final example_rag ''q'' True
                      [(doc_a, 7/10), (doc_b, 0)])))"
    by (rule C6_scores_descending)
  then show ?thesis
    by (simp add: hybrid_example)
qed

section \<open>The response cache\<close>

lemma lower_char_space: "is_space c \<Longrightarrow> lower_char c = c"
  by (auto simp: is_space_def lower_char_def Let_def)

lemma of_char_lower_char:
  "(of_char (lower_char c) :: nat) =
     (if (65 \<le> (of_char c :: nat) \<and> (of_char c :: nat) \<le> 90)
         \<or> (192 \<le> (of_char c :: nat) \<and> (of_char c :: nat) \<le> 222 \<and> (of_char c :: nat) \<noteq> 215)
      then of_char c + 32 else of_char c)"
  by (auto simp: lower_char_def Let_def)

lemma lower_char_idem: "lower_char (lower_char c) = lower_char c"
proof -
  have "(of_char (lower_char (lower_char c)) :: nat) = of_char (lower_char c)"
    by (subst of_char_lower_char) (auto simp: of_char_lower_char)
  then show ?thesis by (metis char_of_char)
qed

lemma lower_idem: "lower (lower s) = lower s"
  by (simp add: lower_def lower_char_idem)

lemma lower_spaces: "list_all is_space ws \<Longrightarrow> lower ws = ws"
  by (induction ws) (auto simp: lower_def lower_char_space)

lemma strip_pad:
  assumes "list_all is_space ws1" "list_all is_space ws2"
  shows "strip (ws1 @ s @ ws2) = strip s"
proof -
  have 1: "dropWhile is_space (ws1 @ s @ ws2) = dropWhile is_space (s @ ws2)"
    by (rule dropWhile_append2) (use assms(1) in \<open>auto simp: list_all_iff\<close>)
  have 2: "dropWhile is_space (rev ws2 @ xs) = dropWhile is_space xs" for xs
    by (rule dropWhile_append2) (use assms(2) in \<open>auto simp: list_all_iff\<close>)
  show ?thesis
  proof (cases "list_all is_space s")
    case True
    then have e: "dropWhile is_space (s @ ws2) = []" "dropWhile is_space s = []"
      using assms(2) by (simp_all add: dropWhile_eq_Nil_conv list_all_iff)
    show ?thesis unfolding strip_def 1 e by simp
  next
    case False
    then obtain x where "x \<in> set s" "\<not> is_space x" by (auto simp: list_all_iff)
    then have "dropWhile is_space (s @ ws2) = dropWhile is_space s @ ws2"
      by (simp add: dropWhile_append1)
    then show ?thesis by (simp add: strip_def 1 2)
  qed
qed

lemma strip_sub: "set (strip s) \<subseteq> set s"
  unfolding strip_def by (metis set_rev set_dropWhileD subsetI)

lemma dropWhile_fixed: "xs = [] \<or> \<not> P (hd xs) \<Longrightarrow> dropWhile P xs = xs"
  by (cases xs) auto

lemma strip_idem: "strip (strip s) = strip s"
proof -
  define a where "a = dropWhile is_space s"
  define b where "b = dropWhile is_space (rev a)"
  have s: "strip s = rev b" by (simp add: strip_def a_def b_def)
  have a: "a = rev b @ rev (takeWhile is_space (rev a))"
    unfolding b_def by (metis rev_append rev_rev_ident takeWhile_dropWhile_id)
  have "dropWhile is_space (rev b) = rev b"
  proof (rule dropWhile_fixed, cases "rev b = []")
    case True then show "rev b = [] \<or> \<not> is_space (hd (rev b))" by simp
  next
    case False
    then have "hd (rev b) = hd a" using a by (metis hd_append2)
    moreover have "a \<noteq> []" using False a by auto
    then have "\<not> is_space (hd a)" unfolding a_def by (rule hd_dropWhile)
    ultimately show "rev b = [] \<or> \<not> is_space (hd (rev b))" by simp
  qed
  moreover have "dropWhile is_space b = b" by (simp add: b_def)
  ultimately have "strip (rev b) = rev b"
    unfolding strip_def by simp
  then show ?thesis by (simp only: s)
qed

lemma lower_strip_lower: "lower (strip (lower s)) = strip (lower s)"
proof -
  have "\<forall>c \<in> set (strip (lower s)). lower_char c = c"
    using strip_sub [of "lower s"] by (auto simp: lower_def lower_char_idem)
  then show ?thesis
    unfolding lower_def [of "strip _"] by (simp add: map_idI)
qed

lemma question_key_pad:
  assumes "list_all is_space ws1" "list_all is_space ws2" "lower q1 = lower q2"
  shows "question_key (ws1 @ q1 @ ws2) = question_key q2"
proof -
  have "lower (ws1 @ q1 @ ws2) = ws1 @ lower q2 @ ws2"
    using assms lower_spaces [of ws1] lower_spaces [of ws2] by (simp add: lower_def)
  then show ?thesis
    by (simp add: question_key_def strip_pad assms)
qed

lemma ttl_steady_offset:
  "get_response_cache \<lparr>epoch = T + 86340, wall = W + 86340\<rparr> question
     (set_response_cache \<lparr>epoch = T, wall = W\<rparr> question resp tok cm)
     = (Some resp,
        (set_response_cache \<lparr>epoch = T, wall = W\<rparr> question resp tok cm)
          \<lparr>response_hits := response_hits cm + 1,
           estimated_cost_saved := estimated_cost_saved cm + 1/100,
           total_tokens_saved := total_tokens_saved cm + tok\<rparr>)"
  "get_response_cache \<lparr>epoch = T + 86460, wall = W'\<rparr> question
     (set_response_cache \<lparr>epoch = T, wall = W\<rparr> question resp tok cm)
     = (None, (set_response_cache \<lparr>epoch = T, wall = W\<rparr> question resp tok cm)
                \<lparr>response_misses := response_misses cm + 1\<rparr>)"
  by (simp_all add: get_response_cache_def set_response_cache_def disk_get_def disk_set_def
      Let_def)

text \<open>
  C4. An answer is written at time T; in the following night the local clock is put forward
  by one hour. The lookup of the same question 23 hours 59 minutes after the write finds the
  entry in the store, not yet expired, but the age computed from the naive local timestamps
  is 24 hours 59 minutes: nothing is returned and a miss is counted.
\<close>

theorem C4_clock_change_counts_a_miss:
  "disk_get (response_cache (set_response_cache \<lparr>epoch = T, wall = W\<rparr> question resp tok cm))
     (T + 86340) (question_key question)
     = Some \<lparr>response = resp, timestamp = W, tokens = tok\<rparr>
   \<and> get_response_cache \<lparr>epoch = T + 86340, wall = W + 86340 + 3600\<rparr> question
       (set_response_cache \<lparr>epoch = T, wall = W\<rparr> question resp tok cm)
     = (None, (set_response_cache \<lparr>epoch = T, wall = W\<rparr> question resp tok cm)
                \<lparr>response_misses := response_misses cm + 1\<rparr>)"
  by (simp add: get_response_cache_def set_response_cache_def disk_get_def disk_set_def Let_def)

text \<open>
  C7. As stated the claim fails for whitespace inside the question: only leading and
  trailing whitespace is stripped, so these two questions, equal up to whitespace, have
  different keys.
\<close>

theorem C7_interior_whitespace_counterexample:
  "differ_only_in_case_or_whitespace ''what is rag'' ''what  is rag''
   \<and> question_key ''what is rag'' \<noteq> question_key ''what  is rag''"
  by (simp add: differ_only_in_case_or_whitespace_def without_case_and_whitespace_def
      question_key_def hash_content_def lower_def strip_def lower_char_def is_space_def)

text \<open>
  C7 (amended). The key is the digest of the lowercased, stripped question, the same on read
  and on write: two questions that differ only in letter case or in leading and trailing
  whitespace have the same key; the hashed text is itself lowercased and stripped; the write
  stores under that key and the read looks that key up.
\<close>

theorem C7_key_of_normalised_question:
  assumes "list_all is_space ws1" and "list_all is_space ws2" and "lower q1 = lower q2"
  shows "question_key (ws1 @ q1 @ ws2) = question_key q2
         \<and> question_key q = hash_content (strip (lower q))
         \<and> lower (strip (lower q)) = strip (lower q)
         \<and> strip (strip (lower q)) = strip (lower q)
         \<and> response_cache (set_response_cache now q resp tok cm)
              = (response_cache cm)
                  (question_key q \<mapsto> (\<lparr>response = resp, timestamp = wall now, tokens = tok\<rparr>,
                                       epoch now + 86400))
         \<and> fst (get_response_cache now q cm)
              = (case disk_get (response_cache cm) (epoch now) (question_key q) of
                   None \<Rightarrow> None
                 | Some c \<Rightarrow>
                     if wall now - timestamp c < 24 * 3600 then Some (response c) else None)"
proof -
  have "fst (get_response_cache now q cm)
              = (case disk_get (response_cache cm) (epoch now) (question_key q) of
                   None \<Rightarrow> None
                 | Some c \<Rightarrow>
                     if wall now - timestamp c < 24 * 3600 then Some (response c) else None)"
    by (simp add: get_response_cache_def Let_def split: option.split)
  moreover have "response_cache (set_response_cache now q resp tok cm)
              = (response_cache cm)
                  (question_key q \<mapsto> (\<lparr>response = resp, timestamp = wall now, tokens = tok\<rparr>,
                                       epoch now + 86400))"
    by (simp add: set_response_cache_def disk_set_def Let_def)
  ultimately show ?thesis
    using question_key_pad [OF assms] lower_strip_lower [of q] strip_idem [of "lower q"]
    by (simp add: question_key_def)
qed

theorem C7_witness:
  "list_all is_space ''  '' \<and> list_all is_space [newline] \<and> lower ''What is RAG?'' = lower ''what IS rag?''
   \<and> question_key (''  '' @ ''What is RAG?'' @ [newline]) = question_key ''what IS rag?''
   \<and> question_key ''  What is RAG?'' = Sha256 ''what is rag?''"
proof -
  have h1: "list_all is_space ''  ''" by (simp add: is_space_def)
  have h2: "list_all is_space [newline]" by (simp add: is_space_def newline_def)
  have h3: "lower ''What is RAG?'' = lower ''what IS rag?''"
    by code_simp
  have e: "question_key ''  What is RAG?'' = Sha256 ''what is rag?''"
    by code_simp
  have k: "question_key (''  '' @ ''What is RAG?'' @ [newline]) = question_key ''what IS rag?''"
    using C7_key_of_normalised_question [OF h1 h2 h3] by (rule conjunct1)
  from h1 h2 h3 k e show ?thesis by (intro conjI)
qed

section \<open>The zero-result case\<close>








text \<open>On a loaded index that holds no chunk the search raises, and the request ends with that
  exception after its first status event: the zero-result branch is not reached.\<close>

lemma empty_corpus_raises:
  "query_stream empty_corpus_rag \<lparr>epoch = 0, wall = 0\<rparr> \<lparr>epoch = 1, wall = 1\<rparr> ''anything''
     True True False
     = \<lparr>events = [Status (Message ''Buscando documentos...'')],
        raised = Some ValueError,
        cache_after = Some (empty_cache\<lparr>response_misses := 1\<rparr>),
        stream_prompts = []\<rparr>"
proof -
  have lookup: "cache_lookup empty_corpus_rag \<lparr>epoch = 0, wall = 0\<rparr> ''anything''
     = (None, Some (empty_cache\<lparr>response_misses := 1\<rparr>))"
    by (simp add: cache_lookup_def empty_corpus_rag_def get_response_cache_def Let_def
        disk_get_def empty_cache_def)
  have search: "retrieve empty_corpus_rag ''anything'' True False = Inl ValueError"
    by (simp add: retrieve_def empty_corpus_rag_def Let_def hybrid_search_def
        similarity_search_with_score_def)
  show ?thesis
    by (simp add: query_stream_def lookup query_stream_miss_def search Let_def)
qed

section \<open>Query expansion\<close>

lemma add_variation_cases:
  "add_variation line vs = vs
   \<or> (add_variation line vs = vs @ [clean_line line]
      \<and> length (clean_line line) > 10 \<and> clean_line line \<notin> set vs)"
  by (simp add: add_variation_def Let_def)

lemma fold_add_variation:
  "\<exists>extra. fold add_variation lines vs = vs @ extra
     \<and> (distinct vs \<longrightarrow> distinct (vs @ extra))
     \<and> (\<forall>v \<in> set extra. length v > 10 \<and> v \<in> clean_line ` set lines)"
proof (induction lines arbitrary: vs)
  case Nil
  then show ?case by simp
next
  case (Cons line lines)
  from Cons.IH [of "add_variation line vs"] obtain extra where
    ih: "fold add_variation lines (add_variation line vs) = add_variation line vs @ extra"
        "distinct (add_variation line vs) \<longrightarrow> distinct (add_variation line vs @ extra)"
        "\<forall>v \<in> set extra. length v > 10 \<and> v \<in> clean_line ` set lines"
    by blast
  from add_variation_cases [of line vs] show ?case
  proof
    assume same: "add_variation line vs = vs"
    with ih show ?thesis
      by (intro exI [of _ extra]) auto
  next
    assume new: "add_variation line vs = vs @ [clean_line line]
      \<and> length (clean_line line) > 10 \<and> clean_line line \<notin> set vs"
    with ih show ?thesis
      by (intro exI [of _ "clean_line line # extra"]) auto
  qed
qed

text \<open>
  C9. \<open>query_expansion\<close> returns a non-empty list that starts with the original query and has
  at most three entries, all different; every entry after the first is a cleaned line of the
  backend's reply and is longer than 10 characters (so a candidate shorter than 10 characters
  or equal to an earlier variant is never kept); and when the generation fails the result is
  exactly \<open>[query]\<close>.
\<close>

theorem C9_query_expansion:
  "query_expansion generate query \<noteq> []
   \<and> hd (query_expansion generate query) = query
   \<and> length (query_expansion generate query) \<le> 3
   \<and> distinct (query_expansion generate query)
   \<and> (\<forall>v \<in> set (tl (query_expansion generate query)).
         length v > 10
         \<and> (\<exists>response. generate (expansion_prompt query) = Some response
               \<and> v \<in> clean_line ` set (split_on newline (strip response))))
   \<and> (generate (expansion_prompt query) = None \<longrightarrow> query_expansion generate query = [query])"
proof (cases "generate (expansion_prompt query)")
  case None
  then show ?thesis by (simp add: query_expansion_def)
next
  case (Some response)
  obtain extra where
    f: "fold add_variation (split_on newline (strip response)) [query] = [query] @ extra"
    and d: "distinct ([query] @ extra)"
    and e: "\<forall>v \<in> set extra. length v > 10
              \<and> v \<in> clean_line ` set (split_on newline (strip response))"
    using fold_add_variation [of "split_on newline (strip response)" "[query]"] by auto
  have q: "query_expansion generate query = query # take 2 extra"
    using Some f by (simp add: query_expansion_def Let_def numeral_3_eq_3 numeral_2_eq_2)
  have sub: "set (take 2 extra) \<subseteq> set extra" by (rule set_take_subset)
  have "distinct (query # take 2 extra)"
    using d sub by (auto dest: in_set_takeD)
  with q e sub Some show ?thesis by auto
qed

lemma expansion_example:
  "query_expansion (\<lambda>prompt. Some expansion_reply) ''capital of France?''
     = [''capital of France?'', ''What is the capital of France?'',
        ''Which city is the capital of France?'']"
  by code_simp

theorem C9_witness:
  "query_expansion (\<lambda>prompt. Some expansion_reply) ''capital of France?''
     = [''capital of France?'', ''What is the capital of France?'',
        ''Which city is the capital of France?'']
   \<and> hd (query_expansion (\<lambda>prompt. Some expansion_reply) ''capital of France?'')
       = ''capital of France?''
   \<and> length (query_expansion (\<lambda>prompt. Some expansion_reply) ''capital of France?'') \<le> 3
   \<and> (\<lambda>prompt. None :: string option) (expansion_prompt ''capital of France?'') = None
   \<and> query_expansion (\<lambda>prompt. None) ''capital of France?'' = [''capital of France?'']"
proof -
  have a: "hd (query_expansion (\<lambda>prompt. Some expansion_reply) ''capital of France?'')
       = ''capital of France?''
     \<and> length (query_expansion (\<lambda>prompt. Some expansion_reply) ''capital of France?'') \<le> 3"
    using C9_query_expansion [of "\<lambda>prompt. Some expansion_reply" "''capital of France?''"]
    by blast
  have b: "query_expansion (\<lambda>prompt. None) ''capital of France?'' = [''capital of France?'']"
    using C9_query_expansion [of "\<lambda>prompt. None" "''capital of France?''"]
    by blast
  from a b expansion_example show ?thesis by simp
qed

section \<open>Fusion at the extreme weights\<close>

lemma dict_set_new: "k \<notin> fst ` set d \<Longrightarrow> dict_set k v d = d @ [(k, v)]"
  by (induction d) auto

lemma dict_set_present:
  "distinct (map fst d) \<Longrightarrow> k \<in> fst ` set d \<Longrightarrow>
   dict_set k v d = map (\<lambda>(k', v'). if k' = k then (k', v) else (k', v')) d"
proof (induction d)
  case Nil
  then show ?case by simp
next
  case (Cons a d)
  obtain k' v' where a: "a = (k', v')" by (cases a)
  show ?case
  proof (cases "k = k'")
    case True
    with Cons.prems a have "k \<notin> fst ` set d" by auto
    then have "map (\<lambda>(k', v'). if k' = k then (k', v) else (k', v')) d = d"
      by (intro map_idI) force
    with True a show ?thesis by simp
  next
    case False
    with Cons a show ?thesis by auto
  qed
qed

lemma normalize_fst: "map fst (normalize results) = map fst results"
  by (simp add: normalize_def Let_def case_prod_beta o_def)

lemma fold_add_vector:
  "distinct (map (\<lambda>r. fingerprint (fst r)) xs) \<Longrightarrow> fingerprints xs \<inter> fst ` set d = {} \<Longrightarrow>
   fold (add_vector w) xs d = d @ map (\<lambda>(doc, s). (fingerprint doc, (doc, s * w))) xs"
proof (induction xs arbitrary: d)
  case Nil
  then show ?case by simp
next
  case (Cons x xs)
  obtain doc s where x: "x = (doc, s)" by (cases x)
  from Cons.prems x have new: "fingerprint doc \<notin> fst ` set d"
    by (auto simp: fingerprints_def)
  have step: "add_vector w x d = d @ [(fingerprint doc, (doc, s * w))]"
    using new by (simp add: add_vector_def x dict_set_new)
  have "fingerprints xs \<inter> fst ` set (d @ [(fingerprint doc, (doc, s * w))]) = {}"
    using Cons.prems x by (auto simp: fingerprints_def)
  with Cons.IH [of "d @ [(fingerprint doc, (doc, s * w))]"] Cons.prems step x
  show ?case by simp
qed

lemma key_score_None: "key_score ks k = None \<longleftrightarrow> k \<notin> fingerprints ks"
  by (auto simp: key_score_def fingerprints_def map_of_eq_None_iff image_iff case_prod_beta)

lemma fold_add_keyword:
  "distinct (map (\<lambda>r. fingerprint (fst r)) ks) \<Longrightarrow> distinct (map fst d) \<Longrightarrow>
   fold (add_keyword kw) ks d =
     map (\<lambda>(k, (doc, s)).
            (k, (doc, s + (case key_score ks k of None \<Rightarrow> 0 | Some s' \<Rightarrow> s' * kw)))) d
     @ map (\<lambda>(doc, s). (fingerprint doc, (doc, s * kw)))
         (filter (\<lambda>(doc, s). fingerprint doc \<notin> fst ` set d) ks)"
proof (induction ks arbitrary: d)
  case Nil
  then show ?case by (simp add: key_score_def case_prod_beta)
next
  case (Cons x ks)
  obtain doc s where x: "x = (doc, s)" by (cases x)
  let ?fp = "fingerprint doc"
  from Cons.prems x have fresh: "?fp \<notin> fingerprints ks" and dks: "distinct (map (\<lambda>r. fingerprint (fst r)) ks)"
    by (auto simp: fingerprints_def)
  then have none: "key_score ks ?fp = None" by (simp add: key_score_None)
  have ks_all: "key_score (x # ks) k = (if k = ?fp then Some s else key_score ks k)" for k
    by (simp add: key_score_def x)
  show ?case
  proof (cases "?fp \<in> fst ` set d")
    case True
    then obtain doc0 s0 where m: "map_of d ?fp = Some (doc0, s0)"
      by (metis map_of_eq_None_iff not_Some_eq prod.exhaust_sel surj_pair)
    let ?d' = "map (\<lambda>(k', v'). if k' = ?fp then (k', (doc0, s0 + s * kw)) else (k', v')) d"
    have step: "add_keyword kw x d = ?d'"
      using m True Cons.prems(2) by (simp add: add_keyword_def x dict_set_present)
    have keys: "map fst ?d' = map fst d" by (simp add: case_prod_beta o_def) 
    then have keys': "fst ` set ?d' = fst ` set d" by (metis list.set_map)
    have d': "distinct (map fst ?d')" unfolding keys by (rule Cons.prems(2))
    have entry: "\<And>k v. (k, v) \<in> set d \<Longrightarrow> k = ?fp \<Longrightarrow> v = (doc0, s0)"
      using m Cons.prems(2) by (metis map_of_is_SomeI option.inject)
    have "fold (add_keyword kw) (x # ks) d = fold (add_keyword kw) ks ?d'"
      using step by simp
    also have "\<dots> = map (\<lambda>(k, (doc, s)).
            (k, (doc, s + (case key_score ks k of None \<Rightarrow> 0 | Some s' \<Rightarrow> s' * kw)))) ?d'
     @ map (\<lambda>(doc, s). (fingerprint doc, (doc, s * kw)))
         (filter (\<lambda>(doc, s). fingerprint doc \<notin> fst ` set d) ks)"
      by (simp only: Cons.IH [OF dks d'] keys')
    also have "map (\<lambda>(k, (doc, s)).
            (k, (doc, s + (case key_score ks k of None \<Rightarrow> 0 | Some s' \<Rightarrow> s' * kw)))) ?d'
       = map (\<lambda>(k, (doc, s)).
            (k, (doc, s + (case key_score (x # ks) k of None \<Rightarrow> 0 | Some s' \<Rightarrow> s' * kw)))) d"
      using entry none by (auto simp: ks_all)
    finally show ?thesis
      using True by (simp add: x)
  next
    case False
    let ?d' = "d @ [(?fp, (doc, s * kw))]"
    have step: "add_keyword kw x d = ?d'"
      using False by (simp add: add_keyword_def x dict_set_new map_of_eq_None_iff [THEN iffD2])
    have d': "distinct (map fst ?d')" using False Cons.prems(2) by auto
    have notin: "\<And>k v. (k, v) \<in> set d \<Longrightarrow> k \<noteq> ?fp"
      using False by force
    have filt: "filter (\<lambda>(doc, s). fingerprint doc \<notin> fst ` set ?d') ks
              = filter (\<lambda>(doc, s). fingerprint doc \<notin> fst ` set d) ks"
    proof (rule filter_cong [OF refl])
      fix r assume "r \<in> set ks"
      then have "fingerprint (fst r) \<in> fingerprints ks"
        unfolding fingerprints_def by (intro imageI)
      with fresh have "fingerprint (fst r) \<noteq> ?fp"
        by metis
      then show "(case r of (doc, s) \<Rightarrow> fingerprint doc \<notin> fst ` set ?d')
               = (case r of (doc, s) \<Rightarrow> fingerprint doc \<notin> fst ` set d)"
        by (cases r) auto
    qed
    have ih: "fold (add_keyword kw) ks ?d' = map (\<lambda>(k, (doc, s)).
            (k, (doc, s + (case key_score ks k of None \<Rightarrow> 0 | Some s' \<Rightarrow> s' * kw)))) ?d'
     @ map (\<lambda>(doc, s). (fingerprint doc, (doc, s * kw)))
         (filter (\<lambda>(doc, s). fingerprint doc \<notin> fst ` set d) ks)"
      by (simp only: Cons.IH [OF dks d'] filt)
    have same: "map (\<lambda>(k, (doc, s)).
            (k, (doc, s + (case key_score ks k of None \<Rightarrow> 0 | Some s' \<Rightarrow> s' * kw)))) d
       = map (\<lambda>(k, (doc, s)).
            (k, (doc, s + (case key_score (x # ks) k of None \<Rightarrow> 0 | Some s' \<Rightarrow> s' * kw)))) d"
      using notin by (auto simp: ks_all)
    have "fold (add_keyword kw) (x # ks) d = fold (add_keyword kw) ks ?d'"
      using step by simp
    then show ?thesis
      using False none same by (simp add: ih x)
  qed
qed

lemma fingerprints_normalize: "fingerprints (normalize rs) = fingerprints rs"
proof -
  have "set (map fst (normalize rs)) = set (map fst rs)"
    by (simp only: normalize_fst)
  then have "fst ` set (normalize rs) = fst ` set rs"
    by (simp only: set_map)
  then show ?thesis by (simp only: fingerprints_def)
qed

lemma distinct_normalize:
  "distinct (map (\<lambda>r. fingerprint (fst r)) (normalize rs))
     = distinct (map (\<lambda>r. fingerprint (fst r)) rs)"
proof -
  have eq: "map (\<lambda>r. fingerprint (fst r)) xs = map fingerprint (map fst xs)" for xs :: "scored list"
    by (induction xs) simp_all
  show ?thesis
    by (simp only: eq normalize_fst)
qed

lemma combine_results_distinct:
  assumes "distinct (map (\<lambda>r. fingerprint (fst r)) vs)"
    and "distinct (map (\<lambda>r. fingerprint (fst r)) ks)"
  shows "combine_results vs ks w None =
     sort_desc
       (map (\<lambda>(doc, s).
               (doc, s * w + (case key_score (normalize ks) (fingerprint doc) of
                                None \<Rightarrow> 0 | Some s' \<Rightarrow> s' * (1 - w)))) (normalize vs)
        @ map (\<lambda>(doc, s). (doc, s * (1 - w))) (keyword_only vs (normalize ks)))"
proof -
  define d where "d = map (\<lambda>(doc, s). (fingerprint doc, (doc, s * w))) (normalize vs)"
  have dv: "distinct (map (\<lambda>r. fingerprint (fst r)) (normalize vs))"
    using assms(1) by (simp only: distinct_normalize)
  have dk: "distinct (map (\<lambda>r. fingerprint (fst r)) (normalize ks))"
    using assms(2) by (simp only: distinct_normalize)
  have "fingerprints (normalize vs) \<inter> fst ` set [] = {}" by simp
  from fold_add_vector [OF dv this, of w]
  have first: "fold (add_vector w) (normalize vs) [] = d"
    by (simp add: d_def)
  have keys: "map fst d = map (\<lambda>r. fingerprint (fst r)) (normalize vs)"
    by (simp add: d_def case_prod_beta o_def)
  have dd: "distinct (map fst d)" unfolding keys by (rule dv)
  have "set (map fst d) = set (map (\<lambda>r. fingerprint (fst r)) (normalize vs))"
    by (simp only: keys)
  then have "fst ` set d = (\<lambda>r. fingerprint (fst r)) ` set (normalize vs)"
    by (simp only: set_map)
  also have "\<dots> = fingerprints (normalize vs)"
    by (simp add: fingerprints_def image_image)
  finally have keyset: "fst ` set d = fingerprints vs"
    by (simp only: fingerprints_normalize)
  have second: "fold (add_keyword (1 - w)) (normalize ks) d =
     map (\<lambda>(k, (doc, s)).
            (k, (doc, s + (case key_score (normalize ks) k of
                             None \<Rightarrow> 0 | Some s' \<Rightarrow> s' * (1 - w))))) d
     @ map (\<lambda>(doc, s). (fingerprint doc, (doc, s * (1 - w))))
         (filter (\<lambda>(doc, s). fingerprint doc \<notin> fingerprints vs) (normalize ks))"
    using fold_add_keyword [OF dk dd, of "1 - w"] by (simp only: keyset)
  have vals: "map snd (map (\<lambda>(k, (doc, s)).
            (k, (doc, s + (case key_score (normalize ks) k of
                             None \<Rightarrow> 0 | Some s' \<Rightarrow> s' * (1 - w))))) d)
      = map (\<lambda>(doc, s).
               (doc, s * w + (case key_score (normalize ks) (fingerprint doc) of
                                None \<Rightarrow> 0 | Some s' \<Rightarrow> s' * (1 - w)))) (normalize vs)"
    by (simp add: d_def case_prod_beta o_def)
  have fresh: "map snd (map (\<lambda>(doc, s). (fingerprint doc, (doc, s * (1 - w))))
         (filter (\<lambda>(doc, s). fingerprint doc \<notin> fingerprints vs) (normalize ks)))
      = map (\<lambda>(doc, s). (doc, s * (1 - w))) (keyword_only vs (normalize ks))"
    by (simp add: keyword_only_def case_prod_beta o_def)
  have "combine_results vs ks w None
      = sort_desc (map snd (fold (add_keyword (1 - w)) (normalize ks)
                     (fold (add_vector w) (normalize vs) [])))"
    by (simp add: combine_results_def Let_def apply_filter_def)
  also have "\<dots> = sort_desc (map snd (fold (add_keyword (1 - w)) (normalize ks) d))"
    by (simp only: first)
  finally show ?thesis
    by (simp only: second map_append vals fresh)
qed

text \<open>
  C5 (amended). With no metadata filter and fingerprints distinct within each list: at
  weight 1.0 the fused list is, in stable descending order of score, the vector documents
  with their normalised vector scores together with the keyword-only documents at score 0;
  at weight 0.0 it is the vector documents with the normalised keyword score of their
  fingerprint (0 when it has none) together with the keyword-only documents with their
  normalised keyword scores. At weight 1.0 it is the pure vector ranking when every keyword
  fingerprint occurs in the vector list.
\<close>

theorem C5_extreme_weights:
  assumes "distinct (map (\<lambda>r. fingerprint (fst r)) vs)"
    and "distinct (map (\<lambda>r. fingerprint (fst r)) ks)"
  shows "combine_results vs ks 1 None
           = sort_desc (normalize vs
                        @ map (\<lambda>(doc, s). (doc, 0)) (keyword_only vs (normalize ks)))
         \<and> combine_results vs ks 0 None
           = sort_desc (map (\<lambda>(doc, s). (doc, score_at (normalize ks) doc)) vs
                        @ keyword_only vs (normalize ks))
         \<and> (fingerprints ks \<subseteq> fingerprints vs
              \<longrightarrow> combine_results vs ks 1 None = pure_ranking vs)"
proof -
  have one: "combine_results vs ks 1 None
           = sort_desc (normalize vs
                        @ map (\<lambda>(doc, s). (doc, 0)) (keyword_only vs (normalize ks)))"
  proof -
    have z: "(case x of None \<Rightarrow> 0 | Some s' \<Rightarrow> s' * (1 - 1)) = (0::real)" for x
      by (cases x) simp_all
    show ?thesis
      unfolding combine_results_distinct [OF assms]
      by (simp add: case_prod_beta z)
  qed
  have "map (\<lambda>(doc, s). (doc, score_at (normalize ks) doc)) (normalize vs)
      = map (\<lambda>doc. (doc, score_at (normalize ks) doc)) (map fst (normalize vs))"
    by (simp add: case_prod_beta o_def)
  also have "\<dots> = map (\<lambda>(doc, s). (doc, score_at (normalize ks) doc)) vs"
    by (simp only: normalize_fst) (simp add: case_prod_beta o_def)
  finally have docs: "map (\<lambda>(doc, s). (doc, score_at (normalize ks) doc)) (normalize vs)
      = map (\<lambda>(doc, s). (doc, score_at (normalize ks) doc)) vs" .
  have zero: "combine_results vs ks 0 None
           = sort_desc (map (\<lambda>(doc, s). (doc, score_at (normalize ks) doc)) vs
                        @ keyword_only vs (normalize ks))"
  proof -
    have z: "(case x of None \<Rightarrow> 0 | Some s' \<Rightarrow> s' * (1 - 0))
           = (case x of None \<Rightarrow> 0 | Some s \<Rightarrow> (s::real))" for x
      by (cases x) simp_all
    show ?thesis
      unfolding combine_results_distinct [OF assms] docs [symmetric]
      by (simp add: case_prod_beta score_at_def z)
  qed
  have "keyword_only vs (normalize ks) = []" if sub: "fingerprints ks \<subseteq> fingerprints vs"
  proof -
    have "fingerprint (fst r) \<in> fingerprints vs" if "r \<in> set (normalize ks)" for r
    proof -
      from that have "fingerprint (fst r) \<in> fingerprints (normalize ks)"
        unfolding fingerprints_def by (intro imageI)
      with sub show ?thesis by (simp only: fingerprints_normalize) blast
    qed
    then have "\<forall>r \<in> set (normalize ks). \<not> (case r of (doc, s) \<Rightarrow> fingerprint doc \<notin> fingerprints vs)"
      by (simp add: case_prod_beta)
    then show ?thesis
      unfolding keyword_only_def by (simp only: filter_empty_conv) 
  qed
  with one have "fingerprints ks \<subseteq> fingerprints vs
      \<longrightarrow> combine_results vs ks 1 None = pure_ranking vs"
    by (simp add: pure_ranking_def)
  with one zero show ?thesis by blast
qed


lemma fingerprint_examples:
  "fingerprint doc_a = ''alpha''" "fingerprint doc_b = ''beta''" "fingerprint doc_c = ''gamma''"
  by (simp_all add: fingerprint_def doc_a_def doc_b_def doc_c_def)

lemma docs_differ: "doc_a \<noteq> doc_b" "doc_a \<noteq> doc_c" "doc_b \<noteq> doc_c"
  by (simp_all add: doc_a_def doc_b_def doc_c_def)

lemma combine_weight_one_example:
  "combine_results [(doc_a, 9/10), (doc_b, 2/10)] [(doc_c, 8/10)] 1 None
     = [(doc_a, 1), (doc_b, 0), (doc_c, 0)]"
  by (simp add: combine_results_def normalize_def Let_def add_vector_def add_keyword_def
      fingerprint_examples apply_filter_def sort_desc_def)

lemma combine_weight_zero_example:
  "combine_results [(doc_a, 9/10), (doc_b, 2/10)] [(doc_c, 8/10)] 0 None
     = [(doc_a, 0), (doc_b, 0), (doc_c, 0)]"
  by (simp add: combine_results_def normalize_def Let_def add_vector_def add_keyword_def
      fingerprint_examples apply_filter_def sort_desc_def)

text \<open>
  C5. As stated the claim fails: a document found only by the keyword search stays in the
  fused list at weight 1.0 (with score 0), and the documents found only by the vector search
  stay in it at weight 0.0.
\<close>

theorem C5_keyword_only_counterexample:
  "combine_results [(doc_a, 9/10), (doc_b, 2/10)] [(doc_c, 8/10)] 1 None
     \<noteq> pure_ranking [(doc_a, 9/10), (doc_b, 2/10)]
   \<and> combine_results [(doc_a, 9/10), (doc_b, 2/10)] [(doc_c, 8/10)] 0 None
     \<noteq> pure_ranking [(doc_c, 8/10)]"
  unfolding combine_weight_one_example combine_weight_zero_example
  by (simp add: pure_ranking_def normalize_def Let_def sort_desc_def)

theorem C5_witness:
  "distinct (map (\<lambda>r. fingerprint (fst r)) [(doc_a, 1 :: real), (doc_b, 0)])
   \<and> distinct (map (\<lambda>r. fingerprint (fst r)) [(doc_b, 1 :: real), (doc_c, 0)])
   \<and> combine_results [(doc_a, 1), (doc_b, 0)] [(doc_b, 1), (doc_c, 0)] 1 None
       = [(doc_a, 1), (doc_b, 0), (doc_c, 0)]
   \<and> combine_results [(doc_a, 1), (doc_b, 0)] [(doc_b, 1), (doc_c, 0)] 0 None
       = [(doc_b, 1), (doc_a, 0), (doc_c, 0)]
   \<and> fingerprints [(doc_b, 1)] \<subseteq> fingerprints [(doc_a, 1), (doc_b, 0)]
   \<and> combine_results [(doc_a, 1), (doc_b, 0)] [(doc_b, 1)] 1 None
       = pure_ranking [(doc_a, 1), (doc_b, 0)]"
proof -
  let ?V = "[(doc_a, 1 :: real), (doc_b, 0)]"
  let ?K = "[(doc_b, 1 :: real), (doc_c, 0)]"
  have dv: "distinct (map (\<lambda>r. fingerprint (fst r)) ?V)"
    by (simp add: fingerprint_examples)
  have dk: "distinct (map (\<lambda>r. fingerprint (fst r)) ?K)"
    by (simp add: fingerprint_examples)
  have dk1: "distinct (map (\<lambda>r. fingerprint (fst r)) [(doc_b, 1 :: real)])"
    by simp
  have sub: "fingerprints [(doc_b, 1)] \<subseteq> fingerprints ?V"
    by (simp add: fingerprints_def)
  have nv: "normalize ?V = ?V"
    by (simp add: normalize_def Let_def)
  have nk: "normalize ?K = ?K"
    by (simp add: normalize_def Let_def)
  have ko: "keyword_only ?V ?K = [(doc_c, 0)]"
    by (simp add: keyword_only_def fingerprints_def fingerprint_examples)
  have sc: "score_at ?K doc_a = 0" "score_at ?K doc_b = 1"
    by (simp_all add: score_at_def key_score_def fingerprint_examples)
  note inst = C5_extreme_weights [OF dv dk]
  have "combine_results ?V ?K 1 None
      = sort_desc (normalize ?V @ map (\<lambda>(doc, s). (doc, 0)) (keyword_only ?V (normalize ?K)))"
    using inst by (rule conjunct1)
  also have "\<dots> = [(doc_a, 1), (doc_b, 0), (doc_c, 0)]"
    unfolding nv nk ko by (simp add: sort_desc_def)
  finally have one: "combine_results ?V ?K 1 None = [(doc_a, 1), (doc_b, 0), (doc_c, 0)]" .
  have "combine_results ?V ?K 0 None
      = sort_desc (map (\<lambda>(doc, s). (doc, score_at (normalize ?K) doc)) ?V
                   @ keyword_only ?V (normalize ?K))"
    using inst [THEN conjunct2] by (rule conjunct1)
  also have "\<dots> = [(doc_b, 1), (doc_a, 0), (doc_c, 0)]"
    unfolding nk ko by (simp add: sort_desc_def sc)
  finally have zero: "combine_results ?V ?K 0 None = [(doc_b, 1), (doc_a, 0), (doc_c, 0)]" .
  have "fingerprints [(doc_b, 1)] \<subseteq> fingerprints ?V
      \<longrightarrow> combine_results ?V [(doc_b, 1)] 1 None = pure_ranking ?V"
    using C5_extreme_weights [OF dv dk1] by (rule conjunct2 [THEN conjunct2])
  then have pure: "combine_results ?V [(doc_b, 1)] 1 None = pure_ranking ?V"
    using sub by (rule mp)
  from dv dk one zero sub pure show ?thesis by (intro conjI)
qed

end
